theory Spec2Isabelle
  imports Main "HOL-Library.Word"
begin

unbundle bit_operations_syntax

section \<open>Errors, file modes and directory entries\<close>

text \<open>
  The error values of \<^verbatim>\<open>jira.go\<close>: the two sentinel errors of the \<^verbatim>\<open>trees\<close> package
  that the views return, the errors built in place with \<^verbatim>\<open>errors.New\<close> (kept with their
  message), the errors handed back by the tracker client, which the views pass on
  unchanged, and the error of the workflow resolver with the search depth it carries.
  \<open>Panic\<close> stands for a run-time panic of the Go program (a write to a nil map, a nil
  pointer dereference), which ends the request.
\<close>

datatype error =
    ErrPermissionDenied
  | ErrNoSuchFile
  | ErrorsNew string
  | RemoteError string
  | NoPathFound nat
  | Panic string

text \<open>
  \<^verbatim>\<open>qp.FileMode\<close> is an unsigned 32-bit integer; \<^verbatim>\<open>qp.DMDIR\<close> is its top bit. The Go
  source writes the permissions in octal: \<^verbatim>\<open>0555\<close> is \<open>0x16D\<close>, \<^verbatim>\<open>0777\<close> is \<open>0x1FF\<close>
  and \<^verbatim>\<open>055\<close> is \<open>0x2D\<close>.
\<close>

type_synonym FileMode = "32 word"

definition DMDIR :: FileMode where
  "DMDIR = 0x80000000"

definition perm_0555 :: FileMode where
  "perm_0555 = 0x16D"

definition perm_0777 :: FileMode where
  "perm_0777 = 0x1FF"

definition perm_055 :: FileMode where
  "perm_055 = 0x2D"

record Stat =
  Name :: string
  Mode :: FileMode
  UID :: string
  GID :: string

text \<open>
  Modelled from the spec: \<^verbatim>\<open>StringsToStats\<close> is called by every \<^verbatim>\<open>List\<close> of
  \<^verbatim>\<open>jira.go\<close> but defined in another file of the repository. The spec describes it as the
  helper that turns a set of names into directory-listing entries with uniform ownership
  and permission metadata.
\<close>

definition StringsToStats :: "string list \<Rightarrow> FileMode \<Rightarrow> string \<Rightarrow> string \<Rightarrow> Stat list" where
  "StringsToStats names perm user grp =
     map (\<lambda>n. \<lparr>Name = n, Mode = perm, UID = user, GID = grp\<rparr>) names"

text \<open>
  Modelled from the spec: \<^verbatim>\<open>StringExistsInSets\<close> is defined outside \<^verbatim>\<open>jira.go\<close>; it is
  used as the test whether a name occurs in one of the given name lists.
\<close>

definition StringExistsInSets :: "string \<Rightarrow> string list list \<Rightarrow> bool" where
  "StringExistsInSets s sets = (\<exists>xs \<in> set sets. s \<in> set xs)"

section \<open>Views and the files they hand out\<close>

record SearchView =
  query :: string
  results :: "string list"

text \<open>
  The draft map \<^verbatim>\<open>values\<close> of an \<^verbatim>\<open>IssueView\<close> (the field \<open>values_map\<close> here) starts as
  the nil map; \<open>None\<close> is nil.
  The locks of the Go structs guard single reads and writes of these fields and have no
  counterpart in the sequential model.
\<close>

record IssueView =
  project :: string
  issueNo :: string
  newIssue :: bool
  values_map :: "(string \<rightharpoonup> string) option"

datatype View =
    WorklogView string string
  | IssueWorklogView string
  | CommentView string string
  | IssueCommentView string
  | IssueView_of IssueView
  | SearchView_of SearchView
  | ProjectIssuesView string
  | ProjectView string
  | AllProjectsView
  | AllIssuesView

record SyntheticFile =
  sf_name :: string
  sf_perm :: FileMode
  sf_user :: string
  sf_group :: string
  Content :: string

text \<open>
  A \<^verbatim>\<open>trees.File\<close> returned by a \<^verbatim>\<open>Walk\<close> is a plain synthetic file, a synthetic file
  wrapped in a close saver, a command file or a directory around a view. The closures
  that the source attaches (the \<^verbatim>\<open>onClose\<close> callback, the command handlers) are modelled
  as functions of their own below, taking the variables they capture as arguments; the
  file value keeps the \<^verbatim>\<open>forceTrunc\<close> flag and the names of the commands. The flag is
  \<open>Some b\<close> where the source assigns \<^verbatim>\<open>cs.forceTrunc = b\<close> and \<open>None\<close> where it leaves the
  value \<^verbatim>\<open>NewCloseSaver\<close> gave it.
\<close>

datatype File =
    Synthetic SyntheticFile
  | CloseSaver SyntheticFile "bool option"
  | CommandFile string FileMode string string "string list"
  | JiraDir string FileMode string string View

definition NewSyntheticFile :: "string \<Rightarrow> FileMode \<Rightarrow> string \<Rightarrow> string \<Rightarrow> SyntheticFile" where
  "NewSyntheticFile name perm user grp =
     \<lparr>sf_name = name, sf_perm = perm, sf_user = user, sf_group = grp, Content = []\<rparr>"

definition SetContent :: "string \<Rightarrow> SyntheticFile \<Rightarrow> SyntheticFile" where
  "SetContent cnt sf = sf\<lparr>Content := cnt\<rparr>"

text \<open>
  The result of a \<^verbatim>\<open>Walk\<close>: \<open>Inl e\<close> is \<^verbatim>\<open>(nil, e)\<close>, \<open>Inr None\<close> is \<^verbatim>\<open>(nil, nil)\<close> (no such
  child) and \<open>Inr (Some f)\<close> is \<^verbatim>\<open>(f, nil)\<close>.
\<close>

type_synonym WalkResult = "error + File option"

section \<open>Static texts\<close>

text \<open>
  The help and structure texts that the root view and the view of all issues serve as
  read-only files, character by character as in the raw string literals of the source.
\<close>

definition tab :: char where
  "tab = CHR 0x09"

definition newline :: char where
  "newline = CHR 0x0A"

definition issues_help_message :: string where
  "issues_help_message = concat
    [''new/: New is a folder that creates a new skeleton issue when entered. It only contains a minimal set of files necessary to create the issue. Once all fields have been filled out, writing '' @
       [CHR 0x22] @ ''commit'' @ [CHR 0x22] @
       '' to the ctl file will cause the issue to be created. The issue folder will change to be that of a created issue, with all files available. Read the '' @
       [CHR 0x22] @ ''key'' @ [CHR 0x22] @
       '' file to figure out what issue key your issue received.'' @ [newline],
     ''ABC-1/: A folder containing information for ticket '' @ [CHR 0x27] @ ''1'' @ [CHR 0x27] @
       '' in project '' @ [CHR 0x27] @ ''ABC'' @ [CHR 0x27] @ ''.'' @ [newline],
     ''ABC-1/comments/: A folder containing comments for the issue. Writing to the comment file creates a new comment. Writing to an existing comment changes it. This structure may change in the future.'' @
       [newline],
     ''ABC-1/components: A list of components this issue applies to. Writable. Note that the component names are case sensitive, and must be match an existing component for the project.'' @
       [newline],
     ''ABC-1/ctl: A command file. On a new issue, the only accepted command is '' @ [CHR 0x22] @
       ''commit'' @ [CHR 0x22] @
       '', which creates the issue with the provided parameters. For existing issues, the only accepted command is '' @
       [CHR 0x22] @ ''delete'' @ [CHR 0x22] @
       ''. In the future, more commands may be made available for things that map poorly to files.'' @
       [newline],
     ''ABC-1/links: Issue links in the form of '' @ [CHR 0x22] @
       ''INWARD-ISSUE OUTWARD-ISSUE RELATIONSHIP'' @ [CHR 0x22] @ '', such as '' @ [CHR 0x22] @
       ''ABC-1 ABC-2 Blocks'' @ [CHR 0x22] @ ''. Writable.'' @ [newline],
     ''ABC-1/raw: The raw JSON issue object. Writable. Expects the written data to be JSON, and the write will be pushed as an issue update.'' @
       [newline],
     ''ABC-1/status: When writing to the status file, jirafs will fetch the relevant workflow graph and trace the shortest path from the current status to the requested status, issuing the necessary transitions in order.'' @
       [newline],
     ''ABC-1/transition: A list of currently possible transitions. Writing to the file executes the transition. See status for a more convenient way of changing issue status.'' @
       [newline],
     [newline],
     ''For deeper structural representation under this hierarchy, cat '' @ [CHR 0x27] @
       ''structure'' @ [CHR 0x27] @ ''.'' @ [newline]]"

definition issues_structure_message :: string where
  "issues_structure_message = concat
    [''new/'' @ [newline],
     replicate 1 tab @ '' ctl'' @ [newline],
     replicate 1 tab @ '' description'' @ [newline],
     replicate 1 tab @ '' project'' @ [newline],
     replicate 1 tab @ '' summary'' @ [newline],
     replicate 1 tab @ '' type'' @ [newline],
     ''  ABC-1/'' @ [newline],
     replicate 1 tab @ '' assignee'' @ [newline],
     replicate 1 tab @ '' comments/'' @ [newline],
     replicate 2 tab @ ''1/'' @ [newline],
     replicate 3 tab @ ''author'' @ [newline],
     replicate 3 tab @ ''updated'' @ [newline],
     replicate 3 tab @ ''created'' @ [newline],
     replicate 3 tab @ ''comment'' @ [newline],
     replicate 2 tab @ ''2/'' @ [newline],
     replicate 3 tab @ ''...'' @ [newline],
     replicate 2 tab @ ''...'' @ [newline],
     replicate 2 tab @ ''comment'' @ [newline],
     replicate 1 tab @ '' components'' @ [newline],
     replicate 1 tab @ '' creator'' @ [newline],
     replicate 1 tab @ '' ctl'' @ [newline],
     replicate 1 tab @ '' description'' @ [newline],
     replicate 1 tab @ '' key'' @ [newline],
     replicate 1 tab @ '' labels'' @ [newline],
     replicate 1 tab @ '' links'' @ [newline],
     replicate 1 tab @ '' priority'' @ [newline],
     replicate 1 tab @ '' progress'' @ [newline],
     replicate 1 tab @ '' project'' @ [newline],
     replicate 1 tab @ '' raw'' @ [newline],
     replicate 1 tab @ '' reporter'' @ [newline],
     replicate 1 tab @ '' resolution'' @ [newline],
     replicate 1 tab @ '' status'' @ [newline],
     replicate 1 tab @ '' summary'' @ [newline],
     replicate 1 tab @ '' transition'' @ [newline],
     replicate 1 tab @ '' type'' @ [newline],
     replicate 1 tab @ '' worklog/'' @ [newline],
     replicate 2 tab @ ''1/'' @ [newline],
     replicate 3 tab @ ''author'' @ [newline],
     replicate 3 tab @ ''started'' @ [newline],
     replicate 3 tab @ ''time'' @ [newline],
     replicate 3 tab @ ''comment'' @ [newline],
     replicate 2 tab @ ''...'' @ [newline],
     ''  ABC-2/'' @ [newline],
     replicate 1 tab @ '' ...'' @ [newline],
     ''  ...'' @ [newline]]"

definition root_structure_message :: string where
  "root_structure_message = concat
    [[newline],
     ''/'' @ [newline],
     replicate 1 tab @ ''ctl'' @ [newline],
     replicate 1 tab @ ''projects/'' @ [newline],
     replicate 1 tab @ ''  ABC/'' @ [newline],
     replicate 2 tab @ '' components'' @ [newline],
     replicate 2 tab @ '' issuetypes'' @ [newline],
     replicate 2 tab @ '' issues/'' @ [newline],
     replicate 3 tab @ ''1/ # ABC-1'' @ [newline],
     replicate 4 tab @ ''...'' @ [newline],
     replicate 3 tab @ ''...'' @ [newline],
     [newline],
     replicate 1 tab @ ''  DEF/'' @ [newline],
     replicate 2 tab @ '' ...'' @ [newline],
     replicate 1 tab @ ''  ...'' @ [newline],
     replicate 1 tab @ ''issues/'' @ [newline],
     replicate 1 tab @ ''  new/'' @ [newline],
     replicate 2 tab @ '' ctl'' @ [newline],
     replicate 2 tab @ '' description'' @ [newline],
     replicate 2 tab @ '' project'' @ [newline],
     replicate 2 tab @ '' summary'' @ [newline],
     replicate 2 tab @ '' type'' @ [newline],
     replicate 1 tab @ ''  ABC-1/'' @ [newline],
     replicate 2 tab @ '' assignee'' @ [newline],
     replicate 2 tab @ '' comments/'' @ [newline],
     replicate 3 tab @ ''1/'' @ [newline],
     replicate 4 tab @ ''author'' @ [newline],
     replicate 4 tab @ ''updated'' @ [newline],
     replicate 4 tab @ ''created'' @ [newline],
     replicate 4 tab @ ''comment'' @ [newline],
     replicate 3 tab @ ''2/'' @ [newline],
     replicate 4 tab @ ''...'' @ [newline],
     replicate 3 tab @ ''...'' @ [newline],
     replicate 3 tab @ ''comment'' @ [newline],
     replicate 2 tab @ '' components'' @ [newline],
     replicate 2 tab @ '' creator'' @ [newline],
     replicate 2 tab @ '' ctl'' @ [newline],
     replicate 2 tab @ '' description'' @ [newline],
     replicate 2 tab @ '' key'' @ [newline],
     replicate 2 tab @ '' labels'' @ [newline],
     replicate 2 tab @ '' links'' @ [newline],
     replicate 2 tab @ '' priority'' @ [newline],
     replicate 2 tab @ '' progress'' @ [newline],
     replicate 2 tab @ '' project'' @ [newline],
     replicate 2 tab @ '' raw'' @ [newline],
     replicate 2 tab @ '' reporter'' @ [newline],
     replicate 2 tab @ '' resolution'' @ [newline],
     replicate 2 tab @ '' status'' @ [newline],
     replicate 2 tab @ '' summary'' @ [newline],
     replicate 2 tab @ '' transition'' @ [newline],
     replicate 2 tab @ '' type'' @ [newline],
     replicate 2 tab @ '' worklog/'' @ [newline],
     replicate 3 tab @ ''1/'' @ [newline],
     replicate 4 tab @ ''author'' @ [newline],
     replicate 4 tab @ ''started'' @ [newline],
     replicate 4 tab @ ''time'' @ [newline],
     replicate 4 tab @ ''comment'' @ [newline],
     replicate 3 tab @ ''...'' @ [newline],
     replicate 1 tab @ ''  ABC-2/'' @ [newline],
     replicate 2 tab @ '' ...'' @ [newline],
     replicate 1 tab @ ''  ...'' @ [newline]]"

definition root_help_message :: string where
  "root_help_message = concat
    [''ctl: A global control file. It supports the following commands:'' @ [newline],
     replicate 1 tab @ ''* search search_name JQL'' @ [newline],
     replicate 2 tab @
       ''If successful, a folder named search_name will appear at the jirafs root. ls'' @
       [CHR 0x27] @
       ''ing in the folder updates the search. The search does not update when simply trying to access an issue in order to avoid significant performance issues.'' @
       [newline],
     replicate 1 tab @ ''* pass-login'' @ [newline],
     replicate 2 tab @
       ''Re-issue a username/password login using the initially provided credentials.'' @
       [newline],
     replicate 1 tab @ ''* set name val'' @ [newline],
     replicate 2 tab @
       ''Sets jirafs variables. Currently, max-listing is the only variable, which expects an integer.'' @
       [newline],
     ''projects/: Directory listing of projects.'' @ [newline],
     ''issues/: Directory listing of issues'' @ [newline],
     [newline],
     ''For deeper structural representation, cat '' @ [CHR 0x27] @ ''structure'' @ [CHR 0x27] @
       [newline]]"

section \<open>The root view\<close>

text \<open>
  \<^verbatim>\<open>JiraView.searches\<close> is a Go map from search names to search views, nil until the first
  \<^verbatim>\<open>Walk\<close>, \<^verbatim>\<open>List\<close> or \<^verbatim>\<open>Remove\<close> replaces it by an empty map.
\<close>

record JiraView =
  searches :: "(string \<rightharpoonup> SearchView) option"

definition init_searches :: "JiraView \<Rightarrow> JiraView" where
  "init_searches jw = (case searches jw of None \<Rightarrow> jw\<lparr>searches := Some Map.empty\<rparr> | Some _ \<Rightarrow> jw)"

definition the_searches :: "JiraView \<Rightarrow> (string \<rightharpoonup> SearchView)" where
  "the_searches jw = (case searches jw of None \<Rightarrow> Map.empty | Some m \<Rightarrow> m)"

text \<open>
  Modelled from the spec: \<^verbatim>\<open>NewJiraDir\<close> is defined outside \<^verbatim>\<open>jira.go\<close>; the spec describes
  it as the helper that wraps a view in a directory node understood by the protocol
  layer. The client it is handed is the one every operation below takes as a parameter.
\<close>

definition NewJiraDir :: "string \<Rightarrow> FileMode \<Rightarrow> string \<Rightarrow> string \<Rightarrow> View \<Rightarrow> WalkResult" where
  "NewJiraDir name perm user grp view = Inr (Some (JiraDir name perm user grp view))"

text \<open>
  \<^verbatim>\<open>JiraView.Walk\<close>. The map is initialised first; the five fixed names are tried in the
  order of the \<^verbatim>\<open>switch\<close>, every other name is looked up among the named searches. The
  directory for a search wraps the search view stored in the map.
\<close>

definition JiraView_Walk :: "JiraView \<Rightarrow> string \<Rightarrow> WalkResult \<times> JiraView" where
  "JiraView_Walk jw0 file =
     (let jw = init_searches jw0 in
      if file = ''ctl'' then
        (Inr (Some (CommandFile ''ctl'' perm_0777 ''jira'' ''jira''
                      [''search'', ''pass-login'', ''set''])), jw)
      else if file = ''projects'' then
        (NewJiraDir file (perm_0555 OR DMDIR) ''jira'' ''jira'' AllProjectsView, jw)
      else if file = ''issues'' then
        (NewJiraDir file (perm_0555 OR DMDIR) ''jira'' ''jira'' AllIssuesView, jw)
      else if file = ''structure'' then
        (Inr (Some (Synthetic (SetContent root_structure_message
                      (NewSyntheticFile file perm_0555 ''jira'' ''jira'')))), jw)
      else if file = ''help'' then
        (Inr (Some (Synthetic (SetContent root_help_message
                      (NewSyntheticFile file perm_0555 ''jira'' ''jira'')))), jw)
      else
        (case the_searches jw file of
           None \<Rightarrow> (Inr None, jw)
         | Some search \<Rightarrow>
             (NewJiraDir file (perm_0555 OR DMDIR) ''jira'' ''jira'' (SearchView_of search), jw)))"

text \<open>
  \<^verbatim>\<open>JiraView.Remove\<close>: \<open>None\<close> is the nil error. The five fixed names are refused before
  the map is touched; otherwise the map is initialised and the name is deleted from it
  when it is there.
\<close>

definition JiraView_Remove :: "JiraView \<Rightarrow> string \<Rightarrow> error option \<times> JiraView" where
  "JiraView_Remove jw0 file =
     (if file = ''ctl'' \<or> file = ''projects'' \<or> file = ''issues'' \<or> file = ''structure''
         \<or> file = ''help'' then
        (Some ErrPermissionDenied, jw0)
      else
        (let jw = init_searches jw0 in
         case the_searches jw file of
           Some _ \<Rightarrow> (None, jw\<lparr>searches := Some ((the_searches jw)(file := None))\<rparr>)
         | None \<Rightarrow> (Some ErrNoSuchFile, jw)))"

text \<open>
  A run of later requests against the root view: each one is a \<^verbatim>\<open>Walk\<close> or a \<^verbatim>\<open>Remove\<close>
  of some name, and leaves the view in the state the next one starts from.
\<close>

datatype root_request = Walk_request string | Remove_request string

fun root_requests :: "JiraView \<Rightarrow> root_request list \<Rightarrow> JiraView" where
  "root_requests jw [] = jw"
| "root_requests jw (Walk_request name # rs) = root_requests (snd (JiraView_Walk jw name)) rs"
| "root_requests jw (Remove_request name # rs) = root_requests (snd (JiraView_Remove jw name)) rs"

definition structural_names :: "string list" where
  "structural_names = [''ctl'', ''projects'', ''issues'', ''help'', ''structure'']"

section \<open>Tracker data and the tracker client\<close>

text \<open>
  The parts of the tracker library's issue type that \<^verbatim>\<open>jira.go\<close> reads. A pointer field
  that may be nil is an \<open>option\<close>; a nested struct of which only one member is read is
  that member (\<open>Assignee\<close> is \<^verbatim>\<open>Assignee.Name\<close>, \<open>Progress\<close> is the pair of
  \<^verbatim>\<open>Progress.Progress\<close> and \<^verbatim>\<open>Progress.Total\<close>, \<open>Components\<close> are the component names).
\<close>

record IssueLink =
  link_ID :: string
  link_Type_Name :: string
  OutwardIssue :: "string option"
  InwardIssue :: "string option"

record IssueFields =
  Assignee :: "string option"
  Reporter :: "string option"
  Creator :: "string option"
  Summary :: string
  Description :: string
  Type_Name :: string
  Type_ID :: string
  Status :: "string option"
  Priority :: "string option"
  Resolution :: "string option"
  Progress :: "(int \<times> int) option"
  Project_Key :: string
  Components :: "string list"
  Labels :: "string list"
  IssueLinks :: "IssueLink list"

record Issue =
  Key :: string
  Fields :: "IssueFields option"

text \<open>
  The zero value of the issue fields, as a Go composite literal leaves the members it
  does not mention.
\<close>

definition zero_IssueFields :: IssueFields where
  "zero_IssueFields =
     \<lparr>Assignee = None, Reporter = None, Creator = None, Summary = [], Description = [],
      Type_Name = [], Type_ID = [], Status = None, Priority = None, Resolution = None,
      Progress = None, Project_Key = [], Components = [], Labels = [], IssueLinks = []\<rparr>"

record Comment =
  Author_Name :: string
  Body :: string
  Updated :: string
  Created :: string

text \<open>
  The workflow graph of an issue type: for every status name the transitions leaving
  it, each with its name and its target status, in the order the tracker returned them.
\<close>

type_synonym WorkflowGraph = "string \<rightharpoonup> (string \<times> string) list"

text \<open>
  The tracker operations are functions of other files of the repository that talk to
  the remote service; the views are modelled over any implementation of them. An
  operation takes the state \<open>'w\<close> of the world outside the file server and returns its
  answer together with the state it leaves behind, so that a call which is made can
  always leave a trace and a result that returns the state untouched has made no call.
  \<open>maxlisting\<close> is the listing bound stored in the client. \<open>MarshalIndent\<close> and
  \<open>DurationString\<close> stand for the JSON encoder and for the printing of a
  \<^verbatim>\<open>time.Duration\<close> (a signed 64-bit count of nanoseconds) of the Go library.
\<close>

record 'w Client =
  maxlisting :: int
  GetIssue :: "string \<Rightarrow> 'w \<Rightarrow> (error + Issue) \<times> 'w"
  CreateIssue :: "Issue \<Rightarrow> 'w \<Rightarrow> (error + string) \<times> 'w"
  DeleteIssue :: "string \<Rightarrow> 'w \<Rightarrow> error option \<times> 'w"
  SetFieldInIssue :: "string \<Rightarrow> string \<Rightarrow> string \<Rightarrow> 'w \<Rightarrow> error option \<times> 'w"
  SetIssueRaw :: "string \<Rightarrow> string \<Rightarrow> 'w \<Rightarrow> error option \<times> 'w"
  GetTransitionsForIssue :: "string \<Rightarrow> 'w \<Rightarrow> (error + string list) \<times> 'w"
  TransitionIssue :: "string \<Rightarrow> string \<Rightarrow> 'w \<Rightarrow> error option \<times> 'w"
  LinkIssues :: "string \<Rightarrow> string \<Rightarrow> string \<Rightarrow> 'w \<Rightarrow> error option \<times> 'w"
  DeleteIssueLink :: "string \<Rightarrow> 'w \<Rightarrow> error option \<times> 'w"
  GetComment :: "string \<Rightarrow> string \<Rightarrow> 'w \<Rightarrow> (error + Comment) \<times> 'w"
  SetComment :: "string \<Rightarrow> string \<Rightarrow> string \<Rightarrow> 'w \<Rightarrow> error option \<times> 'w"
  GetKeysForSearch :: "string \<Rightarrow> int \<Rightarrow> 'w \<Rightarrow> (error + string list) \<times> 'w"
  BuildWorkflow2 :: "string \<Rightarrow> string \<Rightarrow> 'w \<Rightarrow> (error + WorkflowGraph) \<times> 'w"
  MarshalIndent :: "Issue \<Rightarrow> error + string"
  DurationString :: "64 word \<Rightarrow> string"

section \<open>Strings\<close>

text \<open>
  \<^verbatim>\<open>strings.Split\<close> with a separator of one character, the only way the source calls it:
  the pieces between the separators, one more than there are separators, so the empty
  string splits into one empty piece.
\<close>

fun Split :: "string \<Rightarrow> char \<Rightarrow> string list" where
  "Split [] sep = [[]]"
| "Split (c # cs) sep =
     (if c = sep then [] # Split cs sep
      else (case Split cs sep of [] \<Rightarrow> [[c]] | p # ps \<Rightarrow> (c # p) # ps))"

text \<open>\<^verbatim>\<open>strings.Replace(str, "\n", "", -1)\<close>: every newline character is dropped.\<close>

definition remove_newlines :: "string \<Rightarrow> string" where
  "remove_newlines str = filter (\<lambda>c. c \<noteq> newline) str"

text \<open>
  \<^verbatim>\<open>strings.ToUpper\<close> on the bytes of an ASCII string: the letters \<^verbatim>\<open>a\<close> to \<^verbatim>\<open>z\<close> become
  \<^verbatim>\<open>A\<close> to \<^verbatim>\<open>Z\<close>. The Go function also maps the letters outside ASCII to their upper case
  and rewrites bytes that are not valid UTF-8; all those bytes are left as they are
  here, so the two agree on ASCII strings only. Neither touches a \<^verbatim>\<open>-\<close> or a digit, nor
  produces one, and only these decide how an issue name splits and whether its number
  parses.
\<close>

definition upper_char :: "char \<Rightarrow> char" where
  "upper_char c =
     (if 97 \<le> (of_char c :: nat) \<and> (of_char c :: nat) \<le> 122
      then char_of (of_char c - 32 :: nat) else c)"

definition ToUpper :: "string \<Rightarrow> string" where
  "ToUpper s = map upper_char s"

text \<open>
  \<^verbatim>\<open>strconv.ParseUint(s, 10, 64)\<close>: \<open>None\<close> is a non-nil error. The Go function accepts
  neither the empty string nor a sign, an underscore or any character that is not a
  decimal digit, and reports a range error for a value of \<open>2 ^ 64\<close> or more.
\<close>

definition is_digit :: "char \<Rightarrow> bool" where
  "is_digit c = (48 \<le> (of_char c :: nat) \<and> (of_char c :: nat) \<le> 57)"

definition digit_value :: "char \<Rightarrow> nat" where
  "digit_value c = of_char c - 48"

definition ParseUint :: "string \<Rightarrow> nat option" where
  "ParseUint s =
     (if s = [] then None
      else if \<not> list_all is_digit s then None
      else (let v = foldl (\<lambda>a c. 10 * a + digit_value c) 0 s
            in if v < 2 ^ 64 then Some v else None))"

section \<open>Search views\<close>

text \<open>
  \<^verbatim>\<open>SearchView.search\<close> runs the stored query with the client's listing bound and, when
  the tracker answers, stores the keys as the new result list.
\<close>

definition SearchView_search ::
  "'w Client \<Rightarrow> SearchView \<Rightarrow> 'w \<Rightarrow> error option \<times> SearchView \<times> 'w" where
  "SearchView_search jc sw w =
     (case GetKeysForSearch jc (query sw) (maxlisting jc) w of
        (Inl err, w') \<Rightarrow> (Some err, sw, w')
      | (Inr keys, w') \<Rightarrow> (None, sw\<lparr>results := keys\<rparr>, w'))"

definition SearchView_Walk :: "'w Client \<Rightarrow> SearchView \<Rightarrow> string \<Rightarrow> 'w \<Rightarrow> WalkResult \<times> 'w" where
  "SearchView_Walk jc sw file w =
     (let keys = results sw in
      if \<not> StringExistsInSets file [keys] then (Inl ErrNoSuchFile, w)
      else
        (case GetIssue jc file w of
           (Inl err, w') \<Rightarrow> (Inl err, w')
         | (Inr issue, w') \<Rightarrow>
             (case Fields issue of
                None \<Rightarrow> (Inl (ErrorsNew ''nil fields in issue''), w')
              | Some flds \<Rightarrow>
                  (NewJiraDir file (perm_0555 OR DMDIR) ''jira'' ''jira''
                     (IssueView_of \<lparr>project = Project_Key flds, issueNo = Key issue,
                                     newIssue = False, values_map = None\<rparr>), w'))))"

definition SearchView_List ::
  "'w Client \<Rightarrow> SearchView \<Rightarrow> 'w \<Rightarrow> (error + Stat list) \<times> SearchView \<times> 'w" where
  "SearchView_List jc sw w =
     (case SearchView_search jc sw w of
        (Some err, sw', w') \<Rightarrow> (Inl err, sw', w')
      | (None, sw', w') \<Rightarrow>
          (Inr (StringsToStats (results sw') (perm_0555 OR DMDIR) ''jira'' ''jira''), sw', w'))"

section \<open>Issue listings\<close>

text \<open>
  \<^verbatim>\<open>ProjectIssuesView.Walk\<close>: \<^verbatim>\<open>new\<close> opens a draft issue; any other name has to parse as
  an unsigned decimal number before the issue \<^verbatim>\<open>PROJECT-NUMBER\<close> is fetched.
\<close>

definition ProjectIssuesView_Walk ::
  "'w Client \<Rightarrow> string \<Rightarrow> string \<Rightarrow> 'w \<Rightarrow> WalkResult \<times> 'w" where
  "ProjectIssuesView_Walk jc piw_project issueNo' w =
     (let iw = \<lparr>project = piw_project, issueNo = [], newIssue = False, values_map = None\<rparr> in
      if issueNo' = ''new'' then
        (NewJiraDir issueNo' (perm_0555 OR DMDIR) ''jira'' ''jira''
           (IssueView_of (iw\<lparr>newIssue := True\<rparr>)), w)
      else if ParseUint issueNo' = None then (Inr None, w)
      else
        (let issueKey = piw_project @ ''-'' @ issueNo' in
         case GetIssue jc issueKey w of
           (Inl err, w') \<Rightarrow> (Inl err, w')
         | (Inr _, w') \<Rightarrow>
             (NewJiraDir issueNo' (perm_0555 OR DMDIR) ''jira'' ''jira''
                (IssueView_of (iw\<lparr>issueNo := issueKey\<rparr>)), w')))"

text \<open>
  \<^verbatim>\<open>AllIssuesView.Walk\<close>: \<^verbatim>\<open>new\<close>, \<^verbatim>\<open>help\<close> and \<^verbatim>\<open>structure\<close> are served locally; any other
  name is put in upper case and split at \<^verbatim>\<open>-\<close>, and has to give two pieces of which the
  second parses as an unsigned decimal number before the issue is fetched.
\<close>

definition AllIssuesView_Walk :: "'w Client \<Rightarrow> string \<Rightarrow> 'w \<Rightarrow> WalkResult \<times> 'w" where
  "AllIssuesView_Walk jc issueKey w =
     (let iw = \<lparr>project = [], issueNo = [], newIssue = False, values_map = None\<rparr> in
      if issueKey = ''new'' then
        (NewJiraDir issueKey (perm_0555 OR DMDIR) ''jira'' ''jira''
           (IssueView_of (iw\<lparr>newIssue := True\<rparr>)), w)
      else if issueKey = ''help'' then
        (Inr (Some (Synthetic (SetContent issues_help_message
                      (NewSyntheticFile issueKey perm_0555 ''jira'' ''jira'')))), w)
      else if issueKey = ''structure'' then
        (Inr (Some (Synthetic (SetContent issues_structure_message
                      (NewSyntheticFile issueKey perm_0555 ''jira'' ''jira'')))), w)
      else
        (let s = Split (ToUpper issueKey) (CHR ''-'') in
         if length s \<noteq> 2 then (Inr None, w)
         else if ParseUint (s ! 1) = None then (Inr None, w)
         else
           (case GetIssue jc issueKey w of
              (Inl err, w') \<Rightarrow> (Inl err, w')
            | (Inr issue, w') \<Rightarrow>
                (case Fields issue of
                   None \<Rightarrow> (Inl (ErrorsNew ''no fields''), w')
                 | Some flds \<Rightarrow>
                     (NewJiraDir issueKey (perm_0555 OR DMDIR) ''jira'' ''jira''
                        (IssueView_of (iw\<lparr>issueNo := issueKey, project := Project_Key flds\<rparr>)),
                      w')))))"

text \<open>
  \<^verbatim>\<open>AllIssuesView.List\<close>: the keys the tracker returns for the empty query and \<^verbatim>\<open>new\<close> as
  directories, then \<^verbatim>\<open>help\<close> and \<^verbatim>\<open>structure\<close> with the mode the source writes as \<^verbatim>\<open>055\<close>.
\<close>

definition AllIssuesView_List :: "'w Client \<Rightarrow> 'w \<Rightarrow> (error + Stat list) \<times> 'w" where
  "AllIssuesView_List jc w =
     (case GetKeysForSearch jc [] (maxlisting jc) w of
        (Inl err, w') \<Rightarrow> (Inl err, w')
      | (Inr keys, w') \<Rightarrow>
          (Inr (StringsToStats (keys @ [''new'']) (perm_0555 OR DMDIR) ''jira'' ''jira''
                @ StringsToStats [''help'', ''structure''] perm_055 ''jira'' ''jira''), w'))"

text \<open>
  The shape the second check of \<^verbatim>\<open>AllIssuesView.Walk\<close> asks for, read off the name as
  it was given: a \<^verbatim>\<open>-\<close> occurs, and what follows the first one parses as an unsigned
  decimal number (so that there is exactly one \<^verbatim>\<open>-\<close>).
\<close>

definition issue_key_form :: "string \<Rightarrow> bool" where
  "issue_key_form k =
     (case dropWhile (\<lambda>c. c \<noteq> CHR ''-'') k of
        [] \<Rightarrow> False
      | _ # number \<Rightarrow> ParseUint number \<noteq> None)"

section \<open>The workflow transition resolver\<close>

definition edges :: "WorkflowGraph \<Rightarrow> string \<Rightarrow> (string \<times> string) list" where
  "edges g s = (case g s of None \<Rightarrow> [] | Some es \<Rightarrow> es)"

text \<open>
  Modelled from the spec: \<^verbatim>\<open>WorkflowGraph.Path\<close> is called by the status write of
  \<^verbatim>\<open>jira.go\<close> but defined in another file of the repository. The spec describes it as a
  breadth-first search over the graph, edges traversed in the order the tracker returned
  the transitions, that records the transition names of the first path found whose
  length does not exceed \<^verbatim>\<open>maxSteps\<close>, answers a request from a status to itself with the
  empty path, and fails with \<^verbatim>\<open>NoPathFound\<close>, carrying the attempted search depth, when
  the target is not reached within \<^verbatim>\<open>maxSteps\<close>.

  The search proceeds level by level. A frontier holds the statuses first reached
  with the current number of steps, in the order they were discovered, each with the
  transition names that lead to it; \<open>seen\<close> holds every status discovered so far.
\<close>

type_synonym frontier = "(string \<times> string list) list"

fun visit_edges ::
  "string list \<Rightarrow> (string \<times> string) list \<Rightarrow> frontier \<Rightarrow> string list
     \<Rightarrow> frontier \<times> string list" where
  "visit_edges p [] nxt seen = (nxt, seen)"
| "visit_edges p ((t, s') # es) nxt seen =
     (if s' \<in> set seen then visit_edges p es nxt seen
      else visit_edges p es (nxt @ [(s', p @ [t])]) (s' # seen))"

fun expand ::
  "WorkflowGraph \<Rightarrow> frontier \<Rightarrow> frontier \<Rightarrow> string list \<Rightarrow> frontier \<times> string list" where
  "expand g [] nxt seen = (nxt, seen)"
| "expand g ((s, p) # fr) nxt seen =
     (case visit_edges p (edges g s) nxt seen of (nxt', seen') \<Rightarrow> expand g fr nxt' seen')"

fun bfs ::
  "WorkflowGraph \<Rightarrow> string \<Rightarrow> frontier \<Rightarrow> string list \<Rightarrow> nat \<Rightarrow> string list option" where
  "bfs g to fr seen 0 = map_option snd (find (\<lambda>(s, p). s = to) fr)"
| "bfs g to fr seen (Suc n) =
     (case find (\<lambda>(s, p). s = to) fr of
        Some (s, p) \<Rightarrow> Some p
      | None \<Rightarrow>
          (if fr = [] then None
           else (case expand g fr [] seen of (nxt, seen') \<Rightarrow> bfs g to nxt seen' n)))"

definition Path :: "WorkflowGraph \<Rightarrow> string \<Rightarrow> string \<Rightarrow> nat \<Rightarrow> error + string list" where
  "Path g from to maxSteps =
     (case bfs g to [(from, [])] [from] maxSteps of
        Some p \<Rightarrow> Inr p
      | None \<Rightarrow> Inl (NoPathFound maxSteps))"

text \<open>
  A sequence of transition names is a path from one status to another when the graph
  has, from status to status, a transition of each name in turn.
\<close>

fun is_path :: "WorkflowGraph \<Rightarrow> string \<Rightarrow> string list \<Rightarrow> string \<Rightarrow> bool" where
  "is_path g s [] t = (s = t)"
| "is_path g s (n # ns) t = (\<exists>(n', s') \<in> set (edges g s). n' = n \<and> is_path g s' ns t)"

text \<open>
  Which path a search finds first depends on the order of the transitions, so a path is
  also given by the positions of the transitions it takes: a route from a status is a
  list of positions, each the position of the next transition in the list the tracker
  returned for the status reached so far. \<open>follow\<close> walks a route and gives the transition
  names along it and the status it ends in, or nothing when a position is out of range.
\<close>

fun follow :: "WorkflowGraph \<Rightarrow> string \<Rightarrow> nat list \<Rightarrow> (string list \<times> string) option" where
  "follow g s [] = Some ([], s)"
| "follow g s (i # r) =
     (if i < length (edges g s)
      then (case edges g s ! i of
              (t, s') \<Rightarrow> map_option (\<lambda>(p, e). (t # p, e)) (follow g s' r))
      else None)"

text \<open>
  A breadth-first search that takes the transitions of every status in the order of the
  list comes upon the routes by length, and upon the routes of one length in the order
  of their positions, the first position counting most. \<open>no_later r r'\<close> says that the
  search comes upon the route \<open>r\<close> no later than upon \<open>r'\<close>.
\<close>

fun lex_le :: "nat list \<Rightarrow> nat list \<Rightarrow> bool" where
  "lex_le [] r' = True"
| "lex_le (i # r) [] = False"
| "lex_le (i # r) (j # r') = (i < j \<or> (i = j \<and> lex_le r r'))"

definition no_later :: "nat list \<Rightarrow> nat list \<Rightarrow> bool" where
  "no_later r r' = (length r < length r' \<or> (length r = length r' \<and> lex_le r r'))"

text \<open>
  For the correctness of the search: the statuses that some path of exactly \<open>k\<close> steps
  reaches, the statuses one transition away from a frontier, and what holds of the
  frontier and of \<open>seen\<close> at level \<open>k\<close>: the frontier holds, each with a path of \<open>k\<close> steps
  to it, exactly the statuses reached in \<open>k\<close> steps and in no fewer, and \<open>seen\<close> holds
  exactly the statuses reached in at most \<open>k\<close> steps.
\<close>

definition reach :: "WorkflowGraph \<Rightarrow> string \<Rightarrow> nat \<Rightarrow> string \<Rightarrow> bool" where
  "reach g from k t = (\<exists>p. length p = k \<and> is_path g from p t)"

definition successors :: "WorkflowGraph \<Rightarrow> frontier \<Rightarrow> string set" where
  "successors g fr = (\<Union>(s, p) \<in> set fr. snd ` set (edges g s))"

definition level_inv :: "WorkflowGraph \<Rightarrow> string \<Rightarrow> nat \<Rightarrow> frontier \<Rightarrow> string list \<Rightarrow> bool" where
  "level_inv g from k fr seen =
     ((\<forall>(s, p) \<in> set fr. is_path g from p s \<and> length p = k) \<and>
      fst ` set fr = {t. reach g from k t \<and> (\<forall>j<k. \<not> reach g from j t)} \<and>
      set seen = {t. \<exists>j\<le>k. reach g from j t})"

text \<open>
  For the order of discovery: one level of the search keeps, of the steps that lead on
  from the frontier, taken in order, the first to each status not yet seen. The steps
  are listed once with the transition names, as the search records them, and once
  with the route as well. What holds of the frontier at level \<open>k\<close>: its entries can be
  given routes of \<open>k\<close> positions that they are the names of, the routes strictly ascend
  along the frontier, and each is no later than every route of \<open>k\<close> positions to the same
  status.
\<close>

fun firsts :: "string list \<Rightarrow> (string \<times> 'a) list \<Rightarrow> (string \<times> 'a) list" where
  "firsts seen [] = []"
| "firsts seen ((s, x) # cs) =
     (if s \<in> set seen then firsts seen cs else (s, x) # firsts (s # seen) cs)"

definition steps_from :: "WorkflowGraph \<Rightarrow> frontier \<Rightarrow> frontier" where
  "steps_from g fr = concat (map (\<lambda>(s, p). map (\<lambda>(t, s'). (s', p @ [t])) (edges g s)) fr)"

type_synonym routes = "(string \<times> string list \<times> nat list) list"

definition route_steps :: "WorkflowGraph \<Rightarrow> routes \<Rightarrow> routes" where
  "route_steps g frt =
     concat (map (\<lambda>(s, p, r).
       map (\<lambda>i. (snd (edges g s ! i), p @ [fst (edges g s ! i)], r @ [i]))
         [0..<length (edges g s)]) frt)"

definition order_inv :: "WorkflowGraph \<Rightarrow> string \<Rightarrow> nat \<Rightarrow> frontier \<Rightarrow> bool" where
  "order_inv g from k fr =
     (\<exists>frt. fr = map (apsnd fst) frt \<and>
        (\<forall>(s, p, r) \<in> set frt. follow g from r = Some (p, s) \<and> length r = k) \<and>
        sorted_wrt (\<lambda>a b. lex_le (snd (snd a)) (snd (snd b)) \<and> snd (snd a) \<noteq> snd (snd b)) frt \<and>
        (\<forall>(s, p, r) \<in> set frt. \<forall>r' p'.
           length r' = k \<and> follow g from r' = Some (p', s) \<longrightarrow> lex_le r r'))"

section \<open>Issue views\<close>

definition normalFiles :: "string list \<times> string list" where
  "normalFiles =
     ([''assignee'', ''creator'', ''ctl'', ''description'', ''type'', ''key'', ''reporter'',
       ''status'', ''summary'', ''labels'', ''transition'', ''priority'', ''resolution'', ''raw'',
       ''progress'', ''links'', ''components'', ''project''],
      [''comments'', ''worklog''])"

definition newFiles :: "string list \<times> string list" where
  "newFiles = ([''ctl'', ''description'', ''type'', ''summary'', ''project''], [])"

text \<open>Reading a Go map of strings: a key that is not there reads as the empty string.\<close>

definition read_value :: "(string \<rightharpoonup> string) option \<Rightarrow> string \<Rightarrow> string" where
  "read_value m k = (case m of None \<Rightarrow> [] | Some f \<Rightarrow> (case f k of None \<Rightarrow> [] | Some v \<Rightarrow> v))"

subsection \<open>A draft issue\<close>

text \<open>
  The issue that the \<^verbatim>\<open>commit\<close> handler sends to the tracker, and the project it
  settles on: the draft's own project, or the one inherited from the containing view
  when the draft names none.
\<close>

definition commit_project :: "IssueView \<Rightarrow> string" where
  "commit_project iw =
     (let project' = (case values_map iw of
                        None \<Rightarrow> []
                      | Some _ \<Rightarrow> remove_newlines (read_value (values_map iw) ''project''))
      in if project' = [] \<and> project iw \<noteq> [] then project iw else project')"

definition commit_issue :: "IssueView \<Rightarrow> Issue" where
  "commit_issue iw =
     (let issuetype = (case values_map iw of
                         None \<Rightarrow> []
                       | Some _ \<Rightarrow> remove_newlines (read_value (values_map iw) ''type''));
          summary = (case values_map iw of
                       None \<Rightarrow> []
                     | Some _ \<Rightarrow> remove_newlines (read_value (values_map iw) ''summary''));
          description = (case values_map iw of
                           None \<Rightarrow> []
                         | Some _ \<Rightarrow> read_value (values_map iw) ''description'')
      in \<lparr>Key = [],
          Fields = Some (zero_IssueFields
            \<lparr>Type_Name := issuetype, Project_Key := commit_project iw,
             Summary := summary, Description := description\<rparr>)\<rparr>)"

text \<open>
  The handler of the \<^verbatim>\<open>commit\<close> command in the \<^verbatim>\<open>ctl\<close> file of a draft issue. It reads
  the draft, refuses when the view is no longer new, asks the tracker to create the
  issue and, when that succeeds, stores the key and the project and leaves new mode.
\<close>

definition commit ::
  "'w Client \<Rightarrow> IssueView \<Rightarrow> string list \<Rightarrow> 'w \<Rightarrow> error option \<times> IssueView \<times> 'w" where
  "commit jc iw args w =
     (let isNew = newIssue iw in
      if \<not> isNew then (Some (ErrorsNew ''issue already committed''), iw, w)
      else
        (case CreateIssue jc (commit_issue iw) w of
           (Inl err, w') \<Rightarrow> (Some err, iw, w')
         | (Inr key, w') \<Rightarrow>
             (None, iw\<lparr>issueNo := key, project := commit_project iw, newIssue := False\<rparr>, w')))"

text \<open>A run of \<^verbatim>\<open>commit\<close> commands on one view, each with its own arguments.\<close>

fun commits ::
  "'w Client \<Rightarrow> IssueView \<Rightarrow> string list list \<Rightarrow> 'w \<Rightarrow> error option list \<times> IssueView \<times> 'w" where
  "commits jc iw [] w = ([], iw, w)"
| "commits jc iw (args # rest) w =
     (case commit jc iw args w of
        (r, iw', w') \<Rightarrow> (case commits jc iw' rest w' of (rs, iw'', w'') \<Rightarrow> (r # rs, iw'', w'')))"

definition IssueView_newWalk :: "IssueView \<Rightarrow> string \<Rightarrow> WalkResult \<times> IssueView" where
  "IssueView_newWalk iw file =
     (case newFiles of (files, dirs) \<Rightarrow>
      if \<not> StringExistsInSets file [files, dirs] then (Inr None, iw)
      else if file = ''ctl'' then
        (Inr (Some (CommandFile ''ctl'' perm_0777 ''jira'' ''jira'' [''commit''])), iw)
      else
        (let iw' = (case values_map iw of
                      None \<Rightarrow> iw\<lparr>values_map := Some Map.empty\<rparr>
                    | Some _ \<Rightarrow> iw);
             val = read_value (values_map iw') file
         in (Inr (Some (CloseSaver
                          (SetContent val (NewSyntheticFile file perm_0777 ''jira'' ''jira''))
                          None)), iw')))"

text \<open>
  The \<^verbatim>\<open>onClose\<close> callback of a draft file stores the content of the file under the
  file's name.
\<close>

definition newWalk_onClose :: "IssueView \<Rightarrow> string \<Rightarrow> string \<Rightarrow> error option \<times> IssueView" where
  "newWalk_onClose iw file content =
     (case values_map iw of
        None \<Rightarrow> (Some (Panic ''assignment to entry in nil map''), iw)
      | Some m \<Rightarrow> (None, iw\<lparr>values_map := Some (m(file \<mapsto> content))\<rparr>))"

subsection \<open>An existing issue\<close>

definition renderIssueLink :: "IssueLink \<Rightarrow> string \<Rightarrow> string" where
  "renderIssueLink l key =
     (case OutwardIssue l of
        Some outward \<Rightarrow> key @ '' '' @ outward @ '' '' @ link_Type_Name l
      | None \<Rightarrow>
          (case InwardIssue l of
             Some inward \<Rightarrow> inward @ '' '' @ key @ '' '' @ link_Type_Name l
           | None \<Rightarrow> []))"

text \<open>The content of a file that shows one name: the name and a newline, or nothing.\<close>

definition optional_line :: "string option \<Rightarrow> string" where
  "optional_line x = (case x of None \<Rightarrow> [] | Some n \<Rightarrow> n @ [newline])"

definition lines_of :: "string list \<Rightarrow> string" where
  "lines_of xs = concat (map (\<lambda>x. x @ [newline]) xs)"

text \<open>
  The \<^verbatim>\<open>switch\<close> of \<^verbatim>\<open>normalWalk\<close> over the file name, in the order of the source. A
  case either returns from \<^verbatim>\<open>normalWalk\<close> (\<open>Inl\<close> of what it returns) or leaves the content
  \<^verbatim>\<open>cnt\<close> and the flags \<^verbatim>\<open>forceTrunc\<close> and \<^verbatim>\<open>writable\<close>, which both start as true (\<open>Inr\<close> of
  the three).
\<close>

definition normalWalk_switch ::
  "'w Client \<Rightarrow> IssueView \<Rightarrow> Issue \<Rightarrow> string \<Rightarrow> 'w
     \<Rightarrow> (WalkResult + string \<times> bool \<times> bool) \<times> 'w" where
  "normalWalk_switch jc iw issue file w =
     (if file = ''assignee'' then
        (Inr (optional_line (Option.bind (Fields issue) Assignee), True, True), w)
      else if file = ''reporter'' then
        (Inr (optional_line (Option.bind (Fields issue) Reporter), True, True), w)
      else if file = ''creator'' then
        (Inr (optional_line (Option.bind (Fields issue) Creator), True, True), w)
      else if file = ''summary'' then
        (Inr (optional_line (map_option Summary (Fields issue)), False, True), w)
      else if file = ''description'' then
        (Inr (optional_line (map_option Description (Fields issue)), False, True), w)
      else if file = ''type'' then
        (Inr (optional_line (map_option Type_Name (Fields issue)), True, True), w)
      else if file = ''status'' then
        (Inr (optional_line (Option.bind (Fields issue) Status), True, True), w)
      else if file = ''priority'' then
        (Inr (optional_line (Option.bind (Fields issue) Priority), True, True), w)
      else if file = ''resolution'' then
        (Inr (optional_line (Option.bind (Fields issue) Resolution), True, True), w)
      else if file = ''progress'' then
        (Inr (case Option.bind (Fields issue) Progress of
                None \<Rightarrow> []
              | Some (progress, of_total) \<Rightarrow>
                  (let p = (word_of_int progress :: 64 word) * 1000000000;
                       t = (word_of_int of_total :: 64 word) * 1000000000;
                       r = t - p
                   in ''Progress: '' @ DurationString jc p @ '', Remaining: ''
                        @ DurationString jc r @ '', Total: '' @ DurationString jc t @ [newline]),
              True, False), w)
      else if file = ''project'' then
        (Inr (optional_line (map_option Project_Key (Fields issue)), True, False), w)
      else if file = ''key'' then
        (Inr (Key issue @ [newline], True, False), w)
      else if file = ''components'' then
        (Inr (case Fields issue of None \<Rightarrow> [] | Some f \<Rightarrow> lines_of (Components f),
              False, True), w)
      else if file = ''labels'' then
        (Inr (case Fields issue of None \<Rightarrow> [] | Some f \<Rightarrow> lines_of (Labels f),
              False, True), w)
      else if file = ''transition'' then
        (case GetTransitionsForIssue jc (Key issue) w of
           (Inl err, w') \<Rightarrow> (Inl (Inl err), w')
         | (Inr trs, w') \<Rightarrow> (Inr (lines_of trs, True, True), w'))
      else if file = ''links'' then
        (Inr (case Fields issue of
                None \<Rightarrow> []
              | Some f \<Rightarrow> lines_of (map (\<lambda>l. renderIssueLink l (Key issue)) (IssueLinks f)),
              False, True), w)
      else if file = ''comments'' then
        (Inl (NewJiraDir file (perm_0555 OR DMDIR) ''jira'' ''jira''
                (IssueCommentView (issueNo iw))), w)
      else if file = ''worklog'' then
        (Inl (NewJiraDir file (perm_0555 OR DMDIR) ''jira'' ''jira''
                (IssueWorklogView (issueNo iw))), w)
      else if file = ''raw'' then
        (case MarshalIndent jc issue of
           Inl err \<Rightarrow> (Inl (Inl err), w)
         | Inr b \<Rightarrow> (Inr (b, True, True), w))
      else if file = ''ctl'' then
        (Inl (Inr (Some (CommandFile ''ctl'' perm_0777 ''jira'' ''jira'' [''delete'']))), w)
      else (Inr ([], True, True), w))"

text \<open>
  \<^verbatim>\<open>IssueView.normalWalk\<close>: the name has to be one of the files or directories of an
  issue; the issue is fetched; the \<^verbatim>\<open>switch\<close> produces the content and the flags; a
  writable file is wrapped in a close saver that is given the \<^verbatim>\<open>forceTrunc\<close> flag.
\<close>

definition IssueView_normalWalk ::
  "'w Client \<Rightarrow> IssueView \<Rightarrow> string \<Rightarrow> 'w \<Rightarrow> WalkResult \<times> 'w" where
  "IssueView_normalWalk jc iw file w =
     (case normalFiles of (files, dirs) \<Rightarrow>
      if \<not> StringExistsInSets file [files, dirs] then (Inr None, w)
      else
        (case GetIssue jc (issueNo iw) w of
           (Inl err, w') \<Rightarrow> (Inl err, w')
         | (Inr issue, w') \<Rightarrow>
             (case normalWalk_switch jc iw issue file w' of
                (Inl returned, w'') \<Rightarrow> (returned, w'')
              | (Inr (cnt, forceTrunc, writable), w'') \<Rightarrow>
                  (let perm = (if writable then perm_0777 else perm_0555);
                       sf = SetContent cnt (NewSyntheticFile file perm ''jira'' ''jira'')
                   in if writable then (Inr (Some (CloseSaver sf (Some forceTrunc))), w'')
                      else (Inr (Some (Synthetic sf)), w'')))))"

definition IssueView_Walk ::
  "'w Client \<Rightarrow> IssueView \<Rightarrow> string \<Rightarrow> 'w \<Rightarrow> WalkResult \<times> IssueView \<times> 'w" where
  "IssueView_Walk jc iw file w =
     (let isNew = newIssue iw in
      if isNew then (case IssueView_newWalk iw file of (r, iw') \<Rightarrow> (r, iw', w))
      else (case IssueView_normalWalk jc iw file w of (r, w') \<Rightarrow> (r, iw, w')))"

definition IssueView_List :: "IssueView \<Rightarrow> Stat list" where
  "IssueView_List iw =
     (let isNew = newIssue iw in
      case (if isNew then newFiles else normalFiles) of (files, dirs) \<Rightarrow>
        StringsToStats files perm_0777 ''jira'' ''jira''
        @ StringsToStats dirs (perm_0777 OR DMDIR) ''jira'' ''jira'')"

text \<open>The handler of the \<^verbatim>\<open>delete\<close> command in the \<^verbatim>\<open>ctl\<close> file of an existing issue.\<close>

definition normalWalk_delete :: "'w Client \<Rightarrow> Issue \<Rightarrow> string list \<Rightarrow> 'w \<Rightarrow> error option \<times> 'w" where
  "normalWalk_delete jc issue args w = DeleteIssue jc (Key issue) w"

subsection \<open>Closing a written file of an existing issue\<close>

text \<open>
  The loop of the status write: the transitions of the path are executed one after the
  other, and the first error ends the loop and is returned.
\<close>

fun transition_each :: "'w Client \<Rightarrow> string \<Rightarrow> string list \<Rightarrow> 'w \<Rightarrow> error option \<times> 'w" where
  "transition_each jc key [] w = (None, w)"
| "transition_each jc key (s # p) w =
     (case TransitionIssue jc key s w of
        (Some err, w') \<Rightarrow> (Some err, w')
      | (None, w') \<Rightarrow> transition_each jc key p w')"

text \<open>
  The links write. \<open>current_links\<close> is the map \<^verbatim>\<open>cur\<close> from the rendering of each link of
  the issue to the link's ID (a later link with the same rendering overwrites an earlier
  one). \<open>diff_lines\<close> is the loop over the lines of the text: an empty line is skipped, a
  line that is a key of \<^verbatim>\<open>cur\<close> is deleted from \<^verbatim>\<open>cur\<close>, any other line is appended to
  \<^verbatim>\<open>new\<close>.
\<close>

definition current_links :: "string \<Rightarrow> IssueLink list \<Rightarrow> (string \<rightharpoonup> string)" where
  "current_links key links =
     fold (\<lambda>l cur. cur(renderIssueLink l key \<mapsto> link_ID l)) links Map.empty"

fun diff_lines ::
  "string list \<Rightarrow> (string \<rightharpoonup> string) \<Rightarrow> string list \<Rightarrow> (string \<rightharpoonup> string) \<times> string list" where
  "diff_lines [] cur new = (cur, new)"
| "diff_lines (s # input) cur new =
     (if s = [] then diff_lines input cur new
      else if cur s = None then diff_lines input cur (new @ [s])
      else diff_lines input (cur(s := None)) new)"

text \<open>
  The loop over what is left of \<^verbatim>\<open>cur\<close> deletes each remaining link; an error of the
  tracker is logged and the loop goes on. Go visits the keys of a map in an order it
  does not specify; the order is the argument \<open>visit\<close>, a list of keys, and a key of it
  that is not in the map is passed over.
\<close>

fun delete_remaining ::
  "'w Client \<Rightarrow> (string \<rightharpoonup> string) \<Rightarrow> string list \<Rightarrow> 'w \<Rightarrow> 'w" where
  "delete_remaining jc cur [] w = w"
| "delete_remaining jc cur (k # visit) w =
     (case cur k of
        None \<Rightarrow> delete_remaining jc cur visit w
      | Some v \<Rightarrow> delete_remaining jc cur visit (snd (DeleteIssueLink jc v w)))"

text \<open>
  The loop over \<^verbatim>\<open>new\<close>: a line is split at every space; unless that gives three pieces
  of which the first or the second is the key of the issue, the line is passed over;
  otherwise the link is created, and an error of the tracker is logged and the loop goes
  on.
\<close>

fun create_new :: "'w Client \<Rightarrow> string \<Rightarrow> string list \<Rightarrow> 'w \<Rightarrow> 'w" where
  "create_new jc key [] w = w"
| "create_new jc key (k # new) w =
     (let args = Split k (CHR '' '') in
      if length args \<noteq> 3 then create_new jc key new w
      else if args ! 0 \<noteq> key \<and> args ! 1 \<noteq> key then create_new jc key new w
      else create_new jc key new (snd (LinkIssues jc (args ! 0) (args ! 1) (args ! 2) w)))"

text \<open>
  The \<^verbatim>\<open>onClose\<close> callback that \<^verbatim>\<open>normalWalk\<close> attaches to a writable file. \<open>issue\<close> is the
  issue fetched by the \<^verbatim>\<open>Walk\<close> that made the file, \<open>content\<close> the content of the file when
  it is closed. The status write fetches the issue again and works on that one.
\<close>

definition normalWalk_onClose ::
  "'w Client \<Rightarrow> IssueView \<Rightarrow> Issue \<Rightarrow> string \<Rightarrow> string \<Rightarrow> string list \<Rightarrow> 'w
     \<Rightarrow> error option \<times> 'w" where
  "normalWalk_onClose jc iw issue file content visit w =
     (if file = ''raw'' then SetIssueRaw jc (Key issue) content w
      else if file = ''links'' then
        (case Fields issue of
           None \<Rightarrow> (Some (Panic ''nil pointer dereference''), w)
         | Some f \<Rightarrow>
             (case diff_lines (Split content newline)
                     (current_links (Key issue) (IssueLinks f)) [] of
                (cur, new) \<Rightarrow>
                  (None, create_new jc (Key issue) new (delete_remaining jc cur visit w))))
      else if file = ''transition'' then
        TransitionIssue jc (Key issue) (remove_newlines content) w
      else if file = ''status'' then
        (let str = remove_newlines content in
         case GetIssue jc (issueNo iw) w of
           (Inl err, w') \<Rightarrow> (Some err, w')
         | (Inr fetched, w') \<Rightarrow>
             (case Fields fetched of
                None \<Rightarrow> (Some (ErrorsNew ''oops''), w')
              | Some f \<Rightarrow>
                  (case Status f of
                     None \<Rightarrow> (Some (ErrorsNew ''oops2''), w')
                   | Some status \<Rightarrow>
                       (case BuildWorkflow2 jc (project iw) (Type_ID f) w' of
                          (Inl err, w'') \<Rightarrow> (Some err, w'')
                        | (Inr wg, w'') \<Rightarrow>
                            (case Path wg status str 500 of
                               Inl err \<Rightarrow> (Some err, w'')
                             | Inr p \<Rightarrow> transition_each jc (Key fetched) p w'')))))
      else
        (let str = (if file = ''description'' \<or> file = ''labels'' \<or> file = ''components''
                    then content else remove_newlines content)
         in SetFieldInIssue jc (Key issue) file str w))"

section \<open>Comment views\<close>

text \<open>\<^verbatim>\<open>CommentView.Walk\<close> for the comment \<open>comment\<close> of the issue \<open>issue_no\<close>.\<close>

definition CommentView_Walk ::
  "'w Client \<Rightarrow> string \<Rightarrow> string \<Rightarrow> string \<Rightarrow> 'w \<Rightarrow> WalkResult \<times> 'w" where
  "CommentView_Walk jc issue_no comment file w =
     (if \<not> StringExistsInSets file [[''author'', ''comment'', ''updated'', ''created'']]
      then (Inr None, w)
      else
        (case GetComment jc issue_no comment w of
           (Inl err, w') \<Rightarrow> (Inl err, w')
         | (Inr cmt, w') \<Rightarrow>
             (case (if file = ''author'' then (Author_Name cmt @ [newline], False, True)
                    else if file = ''comment'' then (Body cmt, True, False)
                    else if file = ''updated'' then (Updated cmt @ [newline], False, True)
                    else if file = ''created'' then (Created cmt @ [newline], False, True)
                    else ([], False, True)) of
                (cnt, writable, forceTrunc) \<Rightarrow>
                  (let perm = (if writable then perm_0777 else perm_0555);
                       sf = SetContent cnt (NewSyntheticFile file perm ''jira'' ''jira'')
                   in if writable then (Inr (Some (CloseSaver sf (Some forceTrunc))), w')
                      else (Inr (Some (Synthetic sf)), w')))))"

definition CommentView_onClose ::
  "'w Client \<Rightarrow> string \<Rightarrow> string \<Rightarrow> string \<Rightarrow> string \<Rightarrow> 'w \<Rightarrow> error option \<times> 'w" where
  "CommentView_onClose jc issue_no comment file content w =
     (if file = ''comment'' then SetComment jc issue_no comment content w else (None, w))"

definition CommentView_List :: "Stat list" where
  "CommentView_List =
     StringsToStats [''comment''] perm_0777 ''jira'' ''jira''
     @ StringsToStats [''author'', ''updated'', ''created''] perm_0555 ''jira'' ''jira''"

section \<open>What a listing and a walk show of a file\<close>

text \<open>The mode under which a listing shows a name, and the mode of what a walk returns.\<close>

definition listed_mode :: "Stat list \<Rightarrow> string \<Rightarrow> FileMode option" where
  "listed_mode stats nm = map_option Mode (find (\<lambda>e. Name e = nm) stats)"

definition walked_mode :: "WalkResult \<Rightarrow> FileMode option" where
  "walked_mode r =
     (case r of
        Inr (Some (Synthetic sf)) \<Rightarrow> Some (sf_perm sf)
      | Inr (Some (CloseSaver sf _)) \<Rightarrow> Some (sf_perm sf)
      | Inr (Some (CommandFile _ perm _ _ _)) \<Rightarrow> Some perm
      | Inr (Some (JiraDir _ perm _ _ _)) \<Rightarrow> Some perm
      | _ \<Rightarrow> None)"

definition the_stats :: "error + Stat list \<Rightarrow> Stat list" where
  "the_stats r = (case r of Inl _ \<Rightarrow> [] | Inr stats \<Rightarrow> stats)"

text \<open>The \<^verbatim>\<open>forceTrunc\<close> flag of the close saver that a walk returns, if it returns one.\<close>

definition close_saver_flag :: "WalkResult \<Rightarrow> bool option" where
  "close_saver_flag r = (case r of Inr (Some (CloseSaver sf b)) \<Rightarrow> b | _ \<Rightarrow> None)"

text \<open>
  The multi-line fields as the specification lists them, the files for which the source
  sets \<^verbatim>\<open>forceTrunc\<close> to false, and the single-valued files for which it leaves the flag
  true.
\<close>

definition spec_multi_line_fields :: "string list" where
  "spec_multi_line_fields = [''description'', ''comment'', ''labels'', ''components'', ''links'']"

definition incremental_files :: "string list" where
  "incremental_files = [''summary'', ''description'', ''components'', ''labels'', ''links'']"

definition truncating_files :: "string list" where
  "truncating_files =
     [''assignee'', ''reporter'', ''creator'', ''type'', ''status'', ''priority'', ''resolution'']"

text \<open>
  Stripping trailing newlines as the specification words it: the newlines at the end of
  the text go, any other stays.
\<close>

definition spec_strip_trailing_newlines :: "string \<Rightarrow> string" where
  "spec_strip_trailing_newlines s = rev (dropWhile (\<lambda>c. c = newline) (rev s))"

text \<open>
  The single-valued files whose write goes to \<^verbatim>\<open>SetFieldInIssue\<close> through the default
  case, and the three files that case exempts from the removal of newlines.
\<close>

definition scalar_files :: "string list" where
  "scalar_files =
     [''assignee'', ''reporter'', ''creator'', ''summary'', ''type'', ''priority'', ''resolution'']"

definition verbatim_files :: "string list" where
  "verbatim_files = [''description'', ''labels'', ''components'']"

text \<open>
  The transitions of a path all succeed, one after the other, and leave the given
  state: \<open>Some\<close> of that state, or \<open>None\<close> when one of them fails.
\<close>

fun transitions_succeed :: "'w Client \<Rightarrow> string \<Rightarrow> string list \<Rightarrow> 'w \<Rightarrow> 'w option" where
  "transitions_succeed jc key [] w = Some w"
| "transitions_succeed jc key (s # p) w =
     (case TransitionIssue jc key s w of
        (None, w') \<Rightarrow> transitions_succeed jc key p w'
      | (Some err, w') \<Rightarrow> None)"

section \<open>What a links write asks of the tracker\<close>












section \<open>A small tracker for the concrete checks\<close>

text \<open>
  An implementation of the tracker operations that writes every call it receives into
  a log kept in the world state. It answers searches with \<open>hits\<close>, issue lookups from
  \<open>stored\<close> and workflow requests with \<open>workflow\<close>, and refuses the operations and
  transitions named in \<open>refused\<close>.
\<close>

record tracker =
  calls :: "string list list"
  hits :: "string list"
  stored :: "(string \<times> Issue) list"
  refused :: "string list"
  workflow :: WorkflowGraph

definition logged :: "string list \<Rightarrow> tracker \<Rightarrow> tracker" where
  "logged c w = w\<lparr>calls := calls w @ [c]\<rparr>"

definition example_workflow :: WorkflowGraph where
  "example_workflow =
     [''Open'' \<mapsto> [(''Start'', ''InProgress'')],
      ''InProgress'' \<mapsto> [(''Resolve'', ''Closed'')]]"

definition example_client :: "tracker Client" where
  "example_client =
     \<lparr>maxlisting = 100,
      GetIssue = (\<lambda>k w. (case map_of (stored w) k of
                              None \<Rightarrow> Inl (RemoteError ''no such issue'')
                            | Some i \<Rightarrow> Inr i, logged [''GetIssue'', k] w)),
      CreateIssue = (\<lambda>i w. (if ''CreateIssue'' \<in> set (refused w)
                             then Inl (RemoteError ''refused'') else Inr ''ABC-7'',
                             logged (case Fields i of
                                       None \<Rightarrow> [''CreateIssue'']
                                     | Some f \<Rightarrow> [''CreateIssue'', Project_Key f, Type_Name f,
                                                  Summary f]) w)),
      DeleteIssue = (\<lambda>k w. (None, logged [''DeleteIssue'', k] w)),
      SetFieldInIssue = (\<lambda>k f v w. (None, logged [''SetFieldInIssue'', k, f, v] w)),
      SetIssueRaw = (\<lambda>k b w. (None, logged [''SetIssueRaw'', k, b] w)),
      GetTransitionsForIssue = (\<lambda>k w. (Inr [], logged [''GetTransitionsForIssue'', k] w)),
      TransitionIssue = (\<lambda>k t w. (if t \<in> set (refused w)
                                   then Some (RemoteError ''refused'') else None,
                                   logged [''TransitionIssue'', k, t] w)),
      LinkIssues = (\<lambda>a b r w. (None, logged [''LinkIssues'', a, b, r] w)),
      DeleteIssueLink = (\<lambda>i w. (None, logged [''DeleteIssueLink'', i] w)),
      GetComment = (\<lambda>k c w. (if c = ''1''
                                  then Inr \<lparr>Author_Name = ''ann'', Body = ''first'',
                                            Updated = ''today'', Created = ''yesterday''\<rparr>
                                  else Inl (RemoteError ''no such comment''),
                                  logged [''GetComment'', k, c] w)),
      SetComment = (\<lambda>k c b w. (None, logged [''SetComment'', k, c, b] w)),
      GetKeysForSearch = (\<lambda>q n w. (Inr (hits w), logged [''GetKeysForSearch'', q] w)),
      BuildWorkflow2 = (\<lambda>p t w. (Inr (workflow w), logged [''BuildWorkflow2'', p, t] w)),
      MarshalIndent = (\<lambda>i. Inr []),
      DurationString = (\<lambda>d. [])\<rparr>"

definition example_fields :: IssueFields where
  "example_fields =
     zero_IssueFields
       \<lparr>Type_Name := ''Bug'', Type_ID := ''1'', Status := Some ''Open'', Project_Key := ''ABC'',
        IssueLinks := [\<lparr>link_ID = ''10'', link_Type_Name = ''Blocks'',
                         OutwardIssue = Some ''ABC-2'', InwardIssue = None\<rparr>]\<rparr>"

definition example_issue :: Issue where
  "example_issue = \<lparr>Key = ''ABC-1'', Fields = Some example_fields\<rparr>"

definition example_tracker :: tracker where
  "example_tracker =
     \<lparr>calls = [], hits = [''ABC-1''], stored = [(''ABC-1'', example_issue)], refused = [],
      workflow = example_workflow\<rparr>"

definition example_search :: SearchView where
  "example_search = \<lparr>query = ''assignee = me'', results = [''ABC-1'']\<rparr>"

definition grown_tracker :: tracker where
  "grown_tracker = example_tracker\<lparr>hits := [''ABC-1'', ''ABC-9'']\<rparr>"

text \<open>A draft issue in project \<^verbatim>\<open>ABC\<close>, and a tracker that refuses to create issues.\<close>

definition example_draft :: IssueView where
  "example_draft =
     \<lparr>project = ''ABC'', issueNo = [], newIssue = True,
      values_map = Some [''type'' \<mapsto> ''Bug'' @ [newline], ''summary'' \<mapsto> ''Crash on start'' @ [newline]]\<rparr>"

definition refusing_tracker :: tracker where
  "refusing_tracker = example_tracker\<lparr>refused := [''CreateIssue'']\<rparr>"

text \<open>The view of the stored issue.\<close>

definition example_view :: IssueView where
  "example_view = \<lparr>project = ''ABC'', issueNo = ''ABC-1'', newIssue = False, values_map = None\<rparr>"

text \<open>
  A workflow of three steps, and a tracker that has it and refuses the transition
  \<^verbatim>\<open>Resolve\<close>.
\<close>

definition long_workflow :: WorkflowGraph where
  "long_workflow =
     [''Open'' \<mapsto> [(''Start'', ''InProgress'')],
      ''InProgress'' \<mapsto> [(''Resolve'', ''Resolved'')],
      ''Resolved'' \<mapsto> [(''Close'', ''Closed'')]]"

definition stubborn_tracker :: tracker where
  "stubborn_tracker = example_tracker\<lparr>refused := [''Resolve''], workflow := long_workflow\<rparr>"





text \<open>A workflow with two paths of the same length from \<^verbatim>\<open>Open\<close> to \<^verbatim>\<open>Done\<close>.\<close>

definition diamond_workflow :: WorkflowGraph where
  "diamond_workflow =
     [''Open'' \<mapsto> [(''Left'', ''Review''), (''Right'', ''Test'')],
      ''Review'' \<mapsto> [(''Approve'', ''Done'')],
      ''Test'' \<mapsto> [(''Pass'', ''Done'')]]"

text \<open>A root view holding one named search.\<close>

definition example_root :: JiraView where
  "example_root =
     \<lparr>searches = Some [''mine'' \<mapsto> \<lparr>query = ''assignee = me'', results = [''ABC-1'']\<rparr>]\<rparr>"

section \<open>Removing from the root view\<close>

lemma the_searches_init [simp]: "the_searches (init_searches jw) = the_searches jw"
  by (simp add: init_searches_def the_searches_def split: option.splits)

lemma the_searches_update [simp]: "the_searches (jw\<lparr>searches := Some m\<rparr>) = m"
  by (simp add: the_searches_def)

lemma JiraView_Walk_searches: "the_searches (snd (JiraView_Walk jw name)) = the_searches jw"
  by (simp add: JiraView_Walk_def Let_def split: option.splits)

lemma JiraView_Remove_absent:
  "the_searches jw file = None \<Longrightarrow> the_searches (snd (JiraView_Remove jw name)) file = None"
  by (simp add: JiraView_Remove_def Let_def split: option.splits)

lemma root_requests_absent:
  "the_searches jw file = None \<Longrightarrow> the_searches (root_requests jw rs) file = None"
proof (induction rs arbitrary: jw)
  case Nil
  then show ?case by simp
next
  case (Cons r rs)
  show ?case
  proof (cases r)
    case (Walk_request name)
    with Cons show ?thesis by (simp add: JiraView_Walk_searches)
  next
    case (Remove_request name)
    with Cons show ?thesis by (simp add: JiraView_Remove_absent)
  qed
qed

lemma JiraView_Walk_absent:
  assumes "file \<notin> set structural_names" and "the_searches jw file = None"
  shows "fst (JiraView_Walk jw file) = Inr None"
  using assms by (simp add: JiraView_Walk_def structural_names_def Let_def)

text \<open>
  Claim C6. On the root view, \<^verbatim>\<open>Remove\<close> of \<^verbatim>\<open>ctl\<close>, \<^verbatim>\<open>projects\<close>, \<^verbatim>\<open>issues\<close>, \<^verbatim>\<open>help\<close> or
  \<^verbatim>\<open>structure\<close> fails with the permission error and changes nothing. \<^verbatim>\<open>Remove\<close> of any other
  name that is a named search succeeds and deletes exactly that search, and after any run
  of later \<^verbatim>\<open>Walk\<close> and \<^verbatim>\<open>Remove\<close> requests a \<^verbatim>\<open>Walk\<close> to that name finds no child.
  \<^verbatim>\<open>Remove\<close> of any other name fails with the no-such-file error and leaves the named
  searches as they were.
\<close>

theorem JiraView_Remove_outcomes:
  "(nm \<in> set structural_names \<longrightarrow>
      JiraView_Remove jw nm = (Some ErrPermissionDenied, jw)) \<and>
   (nm \<notin> set structural_names \<and> the_searches jw nm \<noteq> None \<longrightarrow>
      fst (JiraView_Remove jw nm) = None \<and>
      the_searches (snd (JiraView_Remove jw nm)) = (the_searches jw)(nm := None) \<and>
      (\<forall>rs. fst (JiraView_Walk (root_requests (snd (JiraView_Remove jw nm)) rs) nm)
              = Inr None)) \<and>
   (nm \<notin> set structural_names \<and> the_searches jw nm = None \<longrightarrow>
      fst (JiraView_Remove jw nm) = Some ErrNoSuchFile \<and>
      the_searches (snd (JiraView_Remove jw nm)) = the_searches jw)"
proof (intro conjI impI allI)
  assume "nm \<in> set structural_names"
  then show "JiraView_Remove jw nm = (Some ErrPermissionDenied, jw)"
    by (auto simp: JiraView_Remove_def structural_names_def)
next
  assume a: "nm \<notin> set structural_names \<and> the_searches jw nm \<noteq> None"
  then show "fst (JiraView_Remove jw nm) = None"
    by (auto simp: JiraView_Remove_def structural_names_def Let_def)
  from a show r: "the_searches (snd (JiraView_Remove jw nm)) = (the_searches jw)(nm := None)"
    by (auto simp: JiraView_Remove_def structural_names_def Let_def)
  fix rs
  from r have "the_searches (snd (JiraView_Remove jw nm)) nm = None"
    by simp
  then have "the_searches (root_requests (snd (JiraView_Remove jw nm)) rs) nm = None"
    by (rule root_requests_absent)
  with a show "fst (JiraView_Walk (root_requests (snd (JiraView_Remove jw nm)) rs) nm) = Inr None"
    by (simp add: JiraView_Walk_absent)
next
  assume a: "nm \<notin> set structural_names \<and> the_searches jw nm = None"
  then show "fst (JiraView_Remove jw nm) = Some ErrNoSuchFile"
    by (auto simp: JiraView_Remove_def structural_names_def Let_def)
  from a show "the_searches (snd (JiraView_Remove jw nm)) = the_searches jw"
    by (auto simp: JiraView_Remove_def structural_names_def Let_def)
qed

theorem JiraView_Remove_outcomes_witness:
  "''ctl'' \<in> set structural_names \<and>
   JiraView_Remove example_root ''ctl'' = (Some ErrPermissionDenied, example_root) \<and>
   ''mine'' \<notin> set structural_names \<and>
   the_searches example_root ''mine'' \<noteq> None \<and>
   fst (JiraView_Walk example_root ''mine'') \<noteq> Inr None \<and>
   fst (JiraView_Remove example_root ''mine'') = None \<and>
   fst (JiraView_Walk
          (root_requests (snd (JiraView_Remove example_root ''mine''))
             [Walk_request ''mine'', Remove_request ''other'', Walk_request ''ctl''])
          ''mine'') = Inr None \<and>
   ''other'' \<notin> set structural_names \<and>
   the_searches example_root ''other'' = None \<and>
   fst (JiraView_Remove example_root ''other'') = Some ErrNoSuchFile"
proof -
  have s: "''ctl'' \<in> set structural_names" "''mine'' \<notin> set structural_names"
      "''other'' \<notin> set structural_names"
    by (simp_all add: structural_names_def)
  have m: "the_searches example_root ''mine'' \<noteq> None" "the_searches example_root ''other'' = None"
    by (simp_all add: example_root_def the_searches_def)
  have w: "fst (JiraView_Walk example_root ''mine'') \<noteq> Inr None"
    by (simp add: JiraView_Walk_def NewJiraDir_def Let_def example_root_def the_searches_def
        init_searches_def)
  from s m w
    JiraView_Remove_outcomes [where nm = "''ctl''" and jw = example_root]
    JiraView_Remove_outcomes [where nm = "''mine''" and jw = example_root]
    JiraView_Remove_outcomes [where nm = "''other''" and jw = example_root]
  show ?thesis by blast
qed

section \<open>Search views: listing queries, walking does not\<close>

text \<open>
  Claim C5. A \<^verbatim>\<open>List\<close> of a search view runs the stored query against the tracker as it
  is at that moment; when the tracker answers, the answer replaces the result list
  whatever it held before and is what the listing shows, so the second of two listings
  shows what the tracker answers the second time; when the tracker fails, the error is
  returned and the result list stays. A \<^verbatim>\<open>Walk\<close> looks the name up in the stored result
  list only: a name that is not in it gets the no-such-file error without any call,
  a name in it is fetched as an issue and wrapped in an issue directory (or the error of
  the fetch is returned), and the outcome does not depend on what a query would answer.
\<close>

theorem SearchView_List_requeries_Walk_reuses:
  "(GetKeysForSearch jc (query sw) (maxlisting jc) w = (Inr keys, w') \<longrightarrow>
      SearchView_List jc sw w =
        (Inr (StringsToStats keys (perm_0555 OR DMDIR) ''jira'' ''jira''),
         sw\<lparr>results := keys\<rparr>, w')) \<and>
   (GetKeysForSearch jc (query sw) (maxlisting jc) w = (Inl err, w') \<longrightarrow>
      SearchView_List jc sw w = (Inl err, sw, w')) \<and>
   (GetKeysForSearch jc (query sw) (maxlisting jc) w = (Inr keys, w') \<and>
    GetKeysForSearch jc (query sw) (maxlisting jc) v = (Inr later, v') \<longrightarrow>
      SearchView_List jc (fst (snd (SearchView_List jc sw w))) v =
        (Inr (StringsToStats later (perm_0555 OR DMDIR) ''jira'' ''jira''),
         sw\<lparr>results := later\<rparr>, v')) \<and>
   (nm \<notin> set (results sw) \<longrightarrow> SearchView_Walk jc sw nm w = (Inl ErrNoSuchFile, w)) \<and>
   (nm \<in> set (results sw) \<and> GetIssue jc nm w = (Inr issue, w') \<and> Fields issue = Some flds \<longrightarrow>
      SearchView_Walk jc sw nm w =
        (Inr (Some (JiraDir nm (perm_0555 OR DMDIR) ''jira'' ''jira''
           (IssueView_of \<lparr>project = Project_Key flds, issueNo = Key issue,
                           newIssue = False, values_map = None\<rparr>))), w')) \<and>
   (nm \<in> set (results sw) \<and> GetIssue jc nm w = (Inl err, w') \<longrightarrow>
      SearchView_Walk jc sw nm w = (Inl err, w')) \<and>
   SearchView_Walk (jc\<lparr>GetKeysForSearch := q\<rparr>) sw nm w = SearchView_Walk jc sw nm w"
  by (auto simp: SearchView_List_def SearchView_search_def SearchView_Walk_def
      StringExistsInSets_def NewJiraDir_def Let_def split: prod.splits sum.splits option.splits)

theorem SearchView_List_requeries_Walk_reuses_witness:
  "GetKeysForSearch example_client (query example_search) (maxlisting example_client) example_tracker
     = (Inr [''ABC-1''], logged [''GetKeysForSearch'', ''assignee = me''] example_tracker) \<and>
   GetKeysForSearch example_client (query example_search) (maxlisting example_client) grown_tracker
     = (Inr [''ABC-1'', ''ABC-9''], logged [''GetKeysForSearch'', ''assignee = me''] grown_tracker) \<and>
   SearchView_List example_client example_search example_tracker
     = (Inr (StringsToStats [''ABC-1''] (perm_0555 OR DMDIR) ''jira'' ''jira''),
        example_search\<lparr>results := [''ABC-1'']\<rparr>,
        logged [''GetKeysForSearch'', ''assignee = me''] example_tracker) \<and>
   SearchView_List example_client
       (fst (snd (SearchView_List example_client example_search example_tracker))) grown_tracker
     = (Inr (StringsToStats [''ABC-1'', ''ABC-9''] (perm_0555 OR DMDIR) ''jira'' ''jira''),
        example_search\<lparr>results := [''ABC-1'', ''ABC-9'']\<rparr>,
        logged [''GetKeysForSearch'', ''assignee = me''] grown_tracker) \<and>
   ''ABC-9'' \<notin> set (results example_search) \<and>
   SearchView_Walk example_client example_search ''ABC-9'' grown_tracker
     = (Inl ErrNoSuchFile, grown_tracker) \<and>
   ''ABC-1'' \<in> set (results example_search) \<and>
   GetIssue example_client ''ABC-1'' grown_tracker
     = (Inr example_issue, logged [''GetIssue'', ''ABC-1''] grown_tracker) \<and>
   Fields example_issue \<noteq> None \<and>
   SearchView_Walk example_client example_search ''ABC-1'' grown_tracker
     = (Inr (Some (JiraDir ''ABC-1'' (perm_0555 OR DMDIR) ''jira'' ''jira''
          (IssueView_of \<lparr>project = ''ABC'', issueNo = ''ABC-1'', newIssue = False,
                          values_map = None\<rparr>))),
        logged [''GetIssue'', ''ABC-1''] grown_tracker)"
proof -
  have q1: "GetKeysForSearch example_client (query example_search) (maxlisting example_client)
      example_tracker = (Inr [''ABC-1''], logged [''GetKeysForSearch'', ''assignee = me''] example_tracker)"
    by (simp add: example_client_def example_search_def example_tracker_def)
  have q2: "GetKeysForSearch example_client (query example_search) (maxlisting example_client)
      grown_tracker = (Inr [''ABC-1'', ''ABC-9''], logged [''GetKeysForSearch'', ''assignee = me''] grown_tracker)"
    by (simp add: example_client_def example_search_def grown_tracker_def)
  have m: "''ABC-9'' \<notin> set (results example_search)" "''ABC-1'' \<in> set (results example_search)"
    by (simp_all add: example_search_def)
  have g: "GetIssue example_client ''ABC-1'' grown_tracker
      = (Inr example_issue, logged [''GetIssue'', ''ABC-1''] grown_tracker)"
    by (simp add: example_client_def grown_tracker_def example_tracker_def)
  have f: "Fields example_issue = Some example_fields"
      "Project_Key example_fields = ''ABC''" "Key example_issue = ''ABC-1''"
      "Fields example_issue \<noteq> None"
    by (simp_all add: example_issue_def example_fields_def)
  note A = SearchView_List_requeries_Walk_reuses [where jc = example_client
      and sw = example_search and w = example_tracker and keys = "[''ABC-1'']"
      and w' = "logged [''GetKeysForSearch'', ''assignee = me''] example_tracker"
      and v = grown_tracker and later = "[''ABC-1'', ''ABC-9'']"
      and v' = "logged [''GetKeysForSearch'', ''assignee = me''] grown_tracker"
      and nm = "''ABC-9''" and err = ErrNoSuchFile and issue = example_issue
      and flds = example_fields and q = "GetKeysForSearch example_client"]
  note B = SearchView_List_requeries_Walk_reuses [where jc = example_client
      and sw = example_search and w = grown_tracker and keys = "[''ABC-1'']"
      and w' = "logged [''GetIssue'', ''ABC-1''] grown_tracker"
      and v = grown_tracker and later = "[''ABC-1'', ''ABC-9'']"
      and v' = "logged [''GetKeysForSearch'', ''assignee = me''] grown_tracker"
      and err = ErrNoSuchFile and issue = example_issue
      and flds = example_fields and q = "GetKeysForSearch example_client"]
  from A q1 q2 have l: "SearchView_List example_client example_search example_tracker
     = (Inr (StringsToStats [''ABC-1''] (perm_0555 OR DMDIR) ''jira'' ''jira''),
        example_search\<lparr>results := [''ABC-1'']\<rparr>,
        logged [''GetKeysForSearch'', ''assignee = me''] example_tracker)"
    "SearchView_List example_client
       (fst (snd (SearchView_List example_client example_search example_tracker))) grown_tracker
     = (Inr (StringsToStats [''ABC-1'', ''ABC-9''] (perm_0555 OR DMDIR) ''jira'' ''jira''),
        example_search\<lparr>results := [''ABC-1'', ''ABC-9'']\<rparr>,
        logged [''GetKeysForSearch'', ''assignee = me''] grown_tracker)"
    by blast+
  from B [where nm = "''ABC-9''"] m have w9:
    "SearchView_Walk example_client example_search ''ABC-9'' grown_tracker
       = (Inl ErrNoSuchFile, grown_tracker)"
    by blast
  from B [where nm = "''ABC-1''"] m g f have w1:
    "SearchView_Walk example_client example_search ''ABC-1'' grown_tracker
     = (Inr (Some (JiraDir ''ABC-1'' (perm_0555 OR DMDIR) ''jira'' ''jira''
          (IssueView_of \<lparr>project = ''ABC'', issueNo = ''ABC-1'', newIssue = False,
                          values_map = None\<rparr>))),
        logged [''GetIssue'', ''ABC-1''] grown_tracker)"
    by simp
  from q1 q2 m g f l w9 w1 show ?thesis by simp
qed

section \<open>Issue names are checked before the tracker is asked\<close>

lemma Split_not_Nil [simp]: "Split s sep \<noteq> []"
  by (cases s) (auto split: list.splits)

lemma Split_no_sep: "sep \<notin> set s \<Longrightarrow> Split s sep = [s]"
  by (induction s) auto

lemma length_Split: "length (Split s sep) = Suc (count_list s sep)"
  by (induction s) (auto split: list.splits)

lemma Split_second:
  "length (Split s sep) = 2 \<Longrightarrow> dropWhile (\<lambda>c. c \<noteq> sep) s = sep # (Split s sep ! 1)"
proof (induction s)
  case Nil
  then show ?case by simp
next
  case (Cons c s)
  show ?case
  proof (cases "c = sep")
    case True
    with Cons.prems have "count_list s sep = 0" by (simp add: length_Split)
    then have "sep \<notin> set s" by (simp add: count_list_0_iff)
    with True show ?thesis by (simp add: Split_no_sep)
  next
    case False
    with Cons show ?thesis by (auto split: list.splits)
  qed
qed

lemma upper_char_code:
  "of_char (upper_char c) = (if 97 \<le> (of_char c :: nat) \<and> (of_char c :: nat) \<le> 122
      then of_char c - 32 else (of_char c :: nat))"
proof (cases "97 \<le> (of_char c :: nat) \<and> (of_char c :: nat) \<le> 122")
  case True
  then have u: "upper_char c = char_of (of_char c - 32 :: nat)"
    unfolding upper_char_def by (rule if_P)
  from True have m: "(of_char c - 32 :: nat) mod 256 = of_char c - 32"
    by (intro mod_less) arith
  have "(of_char (upper_char c) :: nat) = of_char c - 32"
    unfolding u by (simp only: of_char_of m)
  also from True have "\<dots> = (if 97 \<le> (of_char c :: nat) \<and> (of_char c :: nat) \<le> 122
      then of_char c - 32 else (of_char c :: nat))"
    by (simp only: if_P)
  finally show ?thesis .
next
  case False
  then have u: "upper_char c = c"
    unfolding upper_char_def by (rule if_not_P)
  from False show ?thesis unfolding u by auto
qed

lemma upper_char_dash [simp]: "upper_char c = CHR ''-'' \<longleftrightarrow> c = CHR ''-''"
proof
  assume "upper_char c = CHR ''-''"
  then have "(of_char (upper_char c) :: nat) = of_char (CHR ''-'')" by simp
  then have "(of_char c :: nat) = 45"
    unfolding upper_char_code by (simp split: if_splits)
  then have "(of_char c :: nat) = of_char (CHR ''-'')" by simp
  then show "c = CHR ''-''" by (simp only: of_char_eq_iff)
next
  assume "c = CHR ''-''"
  then show "upper_char c = CHR ''-''" by (simp add: upper_char_def)
qed

lemma is_digit_upper_char [simp]: "is_digit (upper_char c) = is_digit c"
  unfolding is_digit_def upper_char_code by (simp split: if_splits) arith

lemma upper_char_digit: "is_digit c \<Longrightarrow> upper_char c = c"
  by (simp add: is_digit_def upper_char_def)

lemma ToUpper_digits: "list_all is_digit s \<Longrightarrow> ToUpper s = s"
  by (induction s) (simp_all add: ToUpper_def upper_char_digit)

lemma ParseUint_ToUpper: "ParseUint (ToUpper s) = ParseUint s"
proof (cases "list_all is_digit s")
  case True
  then show ?thesis by (simp add: ToUpper_digits)
next
  case False
  then have "\<not> list_all is_digit (ToUpper s)"
    by (simp add: ToUpper_def list_all_iff)
  with False show ?thesis by (simp add: ParseUint_def ToUpper_def)
qed

lemma dropWhile_ToUpper:
  "dropWhile (\<lambda>c. c \<noteq> CHR ''-'') (ToUpper s) = ToUpper (dropWhile (\<lambda>c. c \<noteq> CHR ''-'') s)"
  by (induction s) (simp_all add: ToUpper_def)

lemma validation_form:
  assumes "length (Split (ToUpper k) (CHR ''-'')) = 2"
    and "ParseUint (Split (ToUpper k) (CHR ''-'') ! 1) \<noteq> None"
  shows "issue_key_form k"
proof -
  let ?second = "Split (ToUpper k) (CHR ''-'') ! 1"
  from assms(1) have "dropWhile (\<lambda>c. c \<noteq> CHR ''-'') (ToUpper k) = CHR ''-'' # ?second"
    by (rule Split_second)
  then have "ToUpper (dropWhile (\<lambda>c. c \<noteq> CHR ''-'') k) = CHR ''-'' # ?second"
    by (simp only: dropWhile_ToUpper)
  then have "map upper_char (dropWhile (\<lambda>c. c \<noteq> CHR ''-'') k) = CHR ''-'' # ?second"
    by (simp only: ToUpper_def)
  then obtain c r where r: "dropWhile (\<lambda>c. c \<noteq> CHR ''-'') k = c # r"
      and u: "map upper_char r = ?second"
    by (auto simp only: map_eq_Cons_conv)
  from u have "ToUpper r = ?second" by (simp only: ToUpper_def)
  with assms(2) have "ParseUint (ToUpper r) \<noteq> None" by simp
  then have "ParseUint r \<noteq> None" by (simp add: ParseUint_ToUpper)
  with r show ?thesis by (simp add: issue_key_form_def)
qed

text \<open>
  Claim C10. In a project's issue listing, a name other than \<^verbatim>\<open>new\<close> that does not parse
  as an unsigned decimal number finds no child, and the world is returned as it was
  given, whatever the tracker operations are: none of them has been called. In the
  listing of all issues the same holds for every name other than \<^verbatim>\<open>new\<close>, \<^verbatim>\<open>help\<close> and
  \<^verbatim>\<open>structure\<close> that is not a prefix, a \<^verbatim>\<open>-\<close> and a number.
\<close>

theorem issue_name_validation_local:
  "(issueNo' \<noteq> ''new'' \<and> ParseUint issueNo' = None \<longrightarrow>
      ProjectIssuesView_Walk jc prj issueNo' w = (Inr None, w)) \<and>
   (issueKey \<noteq> ''new'' \<and> issueKey \<noteq> ''help'' \<and> issueKey \<noteq> ''structure'' \<and>
    \<not> issue_key_form issueKey \<longrightarrow>
      AllIssuesView_Walk jc issueKey w = (Inr None, w))"
proof (intro conjI impI)
  assume "issueNo' \<noteq> ''new'' \<and> ParseUint issueNo' = None"
  then show "ProjectIssuesView_Walk jc prj issueNo' w = (Inr None, w)"
    by (simp add: ProjectIssuesView_Walk_def)
next
  assume a: "issueKey \<noteq> ''new'' \<and> issueKey \<noteq> ''help'' \<and> issueKey \<noteq> ''structure'' \<and>
    \<not> issue_key_form issueKey"
  then have "length (Split (ToUpper issueKey) (CHR ''-'')) \<noteq> 2
      \<or> ParseUint (Split (ToUpper issueKey) (CHR ''-'') ! 1) = None"
    using validation_form by blast
  with a show "AllIssuesView_Walk jc issueKey w = (Inr None, w)"
    unfolding AllIssuesView_Walk_def Let_def by (cases "length (Split (ToUpper issueKey) (CHR ''-'')) = 2") simp_all
qed

theorem issue_name_validation_local_witness:
  "''abc'' \<noteq> ''new'' \<and> ParseUint ''abc'' = None \<and>
   ProjectIssuesView_Walk example_client ''ABC'' ''abc'' example_tracker = (Inr None, example_tracker) \<and>
   ParseUint ''18446744073709551616'' = None \<and>
   ProjectIssuesView_Walk example_client ''ABC'' ''18446744073709551616'' example_tracker
     = (Inr None, example_tracker) \<and>
   ''ABC-x'' \<noteq> ''new'' \<and> ''ABC-x'' \<noteq> ''help'' \<and> ''ABC-x'' \<noteq> ''structure'' \<and>
   \<not> issue_key_form ''ABC-x'' \<and>
   AllIssuesView_Walk example_client ''ABC-x'' example_tracker = (Inr None, example_tracker) \<and>
   \<not> issue_key_form ''A-B-1'' \<and>
   AllIssuesView_Walk example_client ''A-B-1'' example_tracker = (Inr None, example_tracker) \<and>
   issue_key_form ''ABC-1'' \<and>
   calls (snd (AllIssuesView_Walk example_client ''ABC-1'' example_tracker)) = [[''GetIssue'', ''ABC-1'']] \<and>
   calls (snd (ProjectIssuesView_Walk example_client ''ABC'' ''1'' example_tracker)) = [[''GetIssue'', ''ABC-1'']]"
proof -
  have p: "ParseUint ''abc'' = None" "ParseUint ''18446744073709551616'' = None"
    by (simp_all add: ParseUint_def is_digit_def digit_value_def)
  have f: "\<not> issue_key_form ''ABC-x''" "\<not> issue_key_form ''A-B-1''" "issue_key_form ''ABC-1''"
    by (simp_all add: issue_key_form_def ParseUint_def is_digit_def digit_value_def)
  have c: "calls (snd (AllIssuesView_Walk example_client ''ABC-1'' example_tracker)) = [[''GetIssue'', ''ABC-1'']]"
    by (simp add: AllIssuesView_Walk_def Let_def ToUpper_def upper_char_def ParseUint_def
        is_digit_def digit_value_def example_client_def example_tracker_def logged_def
        example_issue_def NewJiraDir_def)
  have d: "calls (snd (ProjectIssuesView_Walk example_client ''ABC'' ''1'' example_tracker)) = [[''GetIssue'', ''ABC-1'']]"
    by (simp add: ProjectIssuesView_Walk_def Let_def ParseUint_def
        is_digit_def digit_value_def example_client_def example_tracker_def logged_def
        example_issue_def NewJiraDir_def)
  from p f c d
    issue_name_validation_local [where issueNo' = "''abc''" and jc = example_client
      and prj = "''ABC''" and w = example_tracker and issueKey = "''ABC-x''"]
    issue_name_validation_local [where issueNo' = "''18446744073709551616''" and jc = example_client
      and prj = "''ABC''" and w = example_tracker and issueKey = "''A-B-1''"]
  show ?thesis by simp
qed

section \<open>Committing a draft issue\<close>

lemma commit_committed:
  "\<not> newIssue iw \<Longrightarrow> commit jc iw args w = (Some (ErrorsNew ''issue already committed''), iw, w)"
  by (simp add: commit_def)

lemma commits_committed:
  "\<not> newIssue iw \<Longrightarrow>
     commits jc iw argss w = (replicate (length argss) (Some (ErrorsNew ''issue already committed'')), iw, w)"
  by (induction argss) (simp_all add: commit_committed)

text \<open>
  Claim C4. On a view in new mode, a \<^verbatim>\<open>commit\<close> for which the tracker creates the issue
  stores the returned key (and the project settled on) and leaves new mode; from then
  on every \<^verbatim>\<open>commit\<close> on the view, however many follow and whatever the tracker would do,
  fails with the error \<^verbatim>\<open>issue already committed\<close>, makes no call and leaves the view,
  its key included, exactly as it was. A \<^verbatim>\<open>commit\<close> for which the tracker fails returns the
  tracker's error and leaves the view unchanged, still in new mode, so that a later
  \<^verbatim>\<open>commit\<close> is handled as a first one.
\<close>

theorem commit_once:
  "(newIssue iw \<and> CreateIssue jc (commit_issue iw) w = (Inr key, w') \<longrightarrow>
      commit jc iw args w
        = (None, iw\<lparr>issueNo := key, project := commit_project iw, newIssue := False\<rparr>, w') \<and>
      (\<forall>argss v. commits jc (fst (snd (commit jc iw args w))) argss v
         = (replicate (length argss) (Some (ErrorsNew ''issue already committed'')),
            iw\<lparr>issueNo := key, project := commit_project iw, newIssue := False\<rparr>, v))) \<and>
   (newIssue iw \<and> CreateIssue jc (commit_issue iw) w = (Inl err, w') \<longrightarrow>
      commit jc iw args w = (Some err, iw, w')) \<and>
   (\<not> newIssue iw \<longrightarrow>
      commit jc iw args w = (Some (ErrorsNew ''issue already committed''), iw, w))"
  by (simp add: commit_def commits_committed)

theorem commit_once_witness:
  "newIssue example_draft \<and>
   CreateIssue example_client (commit_issue example_draft) refusing_tracker
     = (Inl (RemoteError ''refused''), logged [''CreateIssue'', ''ABC'', ''Bug'', ''Crash on start''] refusing_tracker) \<and>
   commit example_client example_draft [] refusing_tracker
     = (Some (RemoteError ''refused''), example_draft,
        logged [''CreateIssue'', ''ABC'', ''Bug'', ''Crash on start''] refusing_tracker) \<and>
   CreateIssue example_client (commit_issue example_draft) example_tracker
     = (Inr ''ABC-7'', logged [''CreateIssue'', ''ABC'', ''Bug'', ''Crash on start''] example_tracker) \<and>
   commit example_client example_draft [] example_tracker
     = (None, example_draft\<lparr>issueNo := ''ABC-7'', project := ''ABC'', newIssue := False\<rparr>,
        logged [''CreateIssue'', ''ABC'', ''Bug'', ''Crash on start''] example_tracker) \<and>
   commits example_client (fst (snd (commit example_client example_draft [] example_tracker)))
       [[], [''again'']] example_tracker
     = ([Some (ErrorsNew ''issue already committed''), Some (ErrorsNew ''issue already committed'')],
        example_draft\<lparr>issueNo := ''ABC-7'', project := ''ABC'', newIssue := False\<rparr>,
        example_tracker)"
proof -
  have n: "newIssue example_draft" by (simp add: example_draft_def)
  have p: "commit_project example_draft = ''ABC''"
    by (simp add: commit_project_def example_draft_def read_value_def remove_newlines_def newline_def)
  have i: "commit_issue example_draft
      = \<lparr>Key = [], Fields = Some (zero_IssueFields\<lparr>Type_Name := ''Bug'', Project_Key := ''ABC'',
            Summary := ''Crash on start'', Description := []\<rparr>)\<rparr>"
    by (simp add: commit_issue_def p) (simp add: example_draft_def read_value_def remove_newlines_def newline_def)
  have c1: "CreateIssue example_client (commit_issue example_draft) refusing_tracker
     = (Inl (RemoteError ''refused''), logged [''CreateIssue'', ''ABC'', ''Bug'', ''Crash on start''] refusing_tracker)"
    unfolding i by (simp add: example_client_def refusing_tracker_def example_tracker_def zero_IssueFields_def)
  have c2: "CreateIssue example_client (commit_issue example_draft) example_tracker
     = (Inr ''ABC-7'', logged [''CreateIssue'', ''ABC'', ''Bug'', ''Crash on start''] example_tracker)"
    unfolding i by (simp add: example_client_def example_tracker_def zero_IssueFields_def)
  note A = commit_once [where iw = example_draft and jc = example_client and w = refusing_tracker
      and args = "[]" and err = "RemoteError ''refused''" and key = "''ABC-7''"
      and w' = "logged [''CreateIssue'', ''ABC'', ''Bug'', ''Crash on start''] refusing_tracker"]
  note B = commit_once [where iw = example_draft and jc = example_client and w = example_tracker
      and args = "[]" and err = "RemoteError ''refused''" and key = "''ABC-7''"
      and w' = "logged [''CreateIssue'', ''ABC'', ''Bug'', ''Crash on start''] example_tracker"]
  from A n c1 have a: "commit example_client example_draft [] refusing_tracker
     = (Some (RemoteError ''refused''), example_draft,
        logged [''CreateIssue'', ''ABC'', ''Bug'', ''Crash on start''] refusing_tracker)"
    by blast
  from B n c2 have b: "commit example_client example_draft [] example_tracker
        = (None, example_draft\<lparr>issueNo := ''ABC-7'', project := commit_project example_draft,
             newIssue := False\<rparr>,
           logged [''CreateIssue'', ''ABC'', ''Bug'', ''Crash on start''] example_tracker)"
    by blast
  from B n c2 have "\<forall>argss v. commits example_client
         (fst (snd (commit example_client example_draft [] example_tracker))) argss v
         = (replicate (length argss) (Some (ErrorsNew ''issue already committed'')),
            example_draft\<lparr>issueNo := ''ABC-7'', project := commit_project example_draft,
              newIssue := False\<rparr>, v)"
    by blast
  then have c: "commits example_client
         (fst (snd (commit example_client example_draft [] example_tracker)))
         [[], [''again'']] example_tracker
         = (replicate (length [[], [''again'']]) (Some (ErrorsNew ''issue already committed'')),
            example_draft\<lparr>issueNo := ''ABC-7'', project := commit_project example_draft,
              newIssue := False\<rparr>, example_tracker)"
    by blast
  from n c1 c2 a b c p show ?thesis by simp
qed

section \<open>The forceTrunc flag of the writable files\<close>

lemma switch_flag:
  "normalWalk_switch jc iw issue file w = (Inr (cnt, forceTrunc, writable), w')
     \<Longrightarrow> forceTrunc = (file \<notin> set incremental_files)"
  unfolding normalWalk_switch_def incremental_files_def
  by (simp split: if_splits prod.splits sum.splits)

lemma normalWalk_not_a_file:
  "\<not> StringExistsInSets file [fst normalFiles, snd normalFiles]
     \<Longrightarrow> IssueView_normalWalk jc iw file w = (Inr None, w)"
  by (simp add: IssueView_normalWalk_def normalFiles_def split: prod.splits)

lemma normalWalk_fetch_failed:
  "GetIssue jc (issueNo iw) w = (Inl err, w')
     \<Longrightarrow> fst (IssueView_normalWalk jc iw file w) = Inl err
         \<or> fst (IssueView_normalWalk jc iw file w) = Inr None"
  by (simp add: IssueView_normalWalk_def normalFiles_def split: prod.splits)

lemma normalWalk_fetched:
  assumes "StringExistsInSets file [fst normalFiles, snd normalFiles]"
    and "GetIssue jc (issueNo iw) w = (Inr issue, w')"
    and "normalWalk_switch jc iw issue file w' = (r, w'')"
  shows "IssueView_normalWalk jc iw file w =
     (case r of
        Inl returned \<Rightarrow> (returned, w'')
      | Inr (cnt, forceTrunc, writable) \<Rightarrow>
          (if writable
           then Inr (Some (CloseSaver
                  (SetContent cnt (NewSyntheticFile file perm_0777 ''jira'' ''jira''))
                  (Some forceTrunc)))
           else Inr (Some (Synthetic
                  (SetContent cnt (NewSyntheticFile file perm_0555 ''jira'' ''jira'')))), w''))"
  using assms
  by (simp add: IssueView_normalWalk_def normalFiles_def Let_def split: prod.splits sum.splits)

lemma switch_returned_no_flag:
  "normalWalk_switch jc iw issue file w = (Inl returned, w')
     \<Longrightarrow> close_saver_flag returned = None"
  unfolding normalWalk_switch_def close_saver_flag_def NewJiraDir_def
  by (auto split: if_splits prod.splits sum.splits)

lemma normalWalk_flag:
  assumes "close_saver_flag (fst (IssueView_normalWalk jc iw file w)) = Some b"
  shows "b = (file \<notin> set incremental_files)"
proof (cases "StringExistsInSets file [fst normalFiles, snd normalFiles]")
  case False
  with assms show ?thesis by (simp add: normalWalk_not_a_file close_saver_flag_def)
next
  case True
  obtain x w' where g: "GetIssue jc (issueNo iw) w = (x, w')"
    by (cases "GetIssue jc (issueNo iw) w")
  show ?thesis
  proof (cases x)
    case (Inl err)
    with g normalWalk_fetch_failed [of jc iw w err w' "file"] assms show ?thesis
      by (auto simp: close_saver_flag_def)
  next
    case (Inr issue)
    obtain r w'' where s: "normalWalk_switch jc iw issue file w' = (r, w'')"
      by (cases "normalWalk_switch jc iw issue file w'")
    note unfolded = normalWalk_fetched [OF True g [unfolded Inr] s]
    show ?thesis
    proof (cases r)
      case (Inl returned)
      with s have "close_saver_flag returned = None" by (simp add: switch_returned_no_flag)
      with assms unfolded Inl show ?thesis by simp
    next
      case (Inr t)
      obtain cnt forceTrunc writable where t: "t = (cnt, forceTrunc, writable)"
        by (cases t)
      from s Inr t have "normalWalk_switch jc iw issue file w' = (Inr (cnt, forceTrunc, writable), w'')"
        by simp
      then have "forceTrunc = (file \<notin> set incremental_files)"
        by (rule switch_flag)
      with assms unfolded Inr t show ?thesis
        by (cases writable) (simp_all add: close_saver_flag_def)
    qed
  qed
qed


lemma switch_truncating:
  "file \<in> set truncating_files
     \<Longrightarrow> \<exists>cnt. normalWalk_switch jc iw issue file w = (Inr (cnt, True, True), w)"
  unfolding truncating_files_def set_simps insert_iff empty_iff
  by (elim disjE FalseE) (simp_all add: normalWalk_switch_def)

lemma switch_incremental:
  "file \<in> set incremental_files
     \<Longrightarrow> \<exists>cnt. normalWalk_switch jc iw issue file w = (Inr (cnt, False, True), w)"
  unfolding incremental_files_def set_simps insert_iff empty_iff
  by (elim disjE FalseE) (simp_all add: normalWalk_switch_def)

lemma truncating_is_file:
  "file \<in> set truncating_files \<Longrightarrow> StringExistsInSets file [fst normalFiles, snd normalFiles]"
  unfolding truncating_files_def set_simps insert_iff empty_iff
  by (elim disjE FalseE) (simp_all add: normalFiles_def StringExistsInSets_def)

lemma incremental_is_file:
  "file \<in> set incremental_files \<Longrightarrow> StringExistsInSets file [fst normalFiles, snd normalFiles]"
  unfolding incremental_files_def set_simps insert_iff empty_iff
  by (elim disjE FalseE) (simp_all add: normalFiles_def StringExistsInSets_def)

lemma normalWalk_truncating:
  assumes "GetIssue jc (issueNo iw) w = (Inr issue, w')" and "file \<in> set truncating_files"
  shows "close_saver_flag (fst (IssueView_normalWalk jc iw file w)) = Some True"
proof -
  from switch_truncating [OF assms(2), of jc iw issue w']
  obtain cnt where "normalWalk_switch jc iw issue file w' = (Inr (cnt, True, True), w')" ..
  from normalWalk_fetched [OF truncating_is_file [OF assms(2)] assms(1) this]
  show ?thesis by (simp add: close_saver_flag_def)
qed

lemma normalWalk_incremental:
  assumes "GetIssue jc (issueNo iw) w = (Inr issue, w')" and "file \<in> set incremental_files"
  shows "close_saver_flag (fst (IssueView_normalWalk jc iw file w)) = Some False"
proof -
  from switch_incremental [OF assms(2), of jc iw issue w']
  obtain cnt where "normalWalk_switch jc iw issue file w' = (Inr (cnt, False, True), w')" ..
  from normalWalk_fetched [OF incremental_is_file [OF assms(2)] assms(1) this]
  show ?thesis by (simp add: close_saver_flag_def)
qed

lemma CommentView_flag:
  "close_saver_flag (fst (CommentView_Walk jc issue_no comment file w)) = Some b
     \<Longrightarrow> file = ''comment'' \<and> \<not> b"
proof -
  assume a: "close_saver_flag (fst (CommentView_Walk jc issue_no comment file w)) = Some b"
  obtain x w' where g: "GetComment jc issue_no comment w = (x, w')"
    by (cases "GetComment jc issue_no comment w")
  show ?thesis
  proof (cases "StringExistsInSets file [[''author'', ''comment'', ''updated'', ''created'']]")
    case False
    with a show ?thesis by (simp add: CommentView_Walk_def close_saver_flag_def)
  next
    case True
    show ?thesis
    proof (cases x)
      case (Inl err)
      with a g True show ?thesis by (simp add: CommentView_Walk_def close_saver_flag_def)
    next
      case (Inr cmt)
      with a g True show ?thesis
        by (simp add: CommentView_Walk_def close_saver_flag_def Let_def split: if_splits)
    qed
  qed
qed

lemma CommentView_comment_flag:
  "GetComment jc issue_no comment w = (Inr cmt, w')
     \<Longrightarrow> close_saver_flag (fst (CommentView_Walk jc issue_no comment ''comment'' w)) = Some False"
  unfolding CommentView_Walk_def close_saver_flag_def
  by (simp add: Let_def StringExistsInSets_def)

text \<open>
  Claim C7, as amended. Whenever \<^verbatim>\<open>normalWalk\<close> returns a close saver, its \<^verbatim>\<open>forceTrunc\<close>
  flag is false for \<^verbatim>\<open>summary\<close>, \<^verbatim>\<open>description\<close>, \<^verbatim>\<open>components\<close>, \<^verbatim>\<open>labels\<close> and \<^verbatim>\<open>links\<close> and
  true for every other file; once the issue is fetched, each of these five files and each
  of \<^verbatim>\<open>assignee\<close>, \<^verbatim>\<open>reporter\<close>, \<^verbatim>\<open>creator\<close>, \<^verbatim>\<open>type\<close>, \<^verbatim>\<open>status\<close>, \<^verbatim>\<open>priority\<close> and
  \<^verbatim>\<open>resolution\<close> does come with a close saver. In a comment view only the file
  \<^verbatim>\<open>comment\<close> gets a close saver, and its flag is false.
\<close>

theorem forceTrunc_by_file:
  "(close_saver_flag (fst (IssueView_normalWalk jc iw file w)) = Some b \<longrightarrow>
      b = (file \<notin> set incremental_files)) \<and>
   (GetIssue jc (issueNo iw) w = (Inr issue, w') \<and> file \<in> set truncating_files \<longrightarrow>
      close_saver_flag (fst (IssueView_normalWalk jc iw file w)) = Some True) \<and>
   (GetIssue jc (issueNo iw) w = (Inr issue, w') \<and> file \<in> set incremental_files \<longrightarrow>
      close_saver_flag (fst (IssueView_normalWalk jc iw file w)) = Some False) \<and>
   (close_saver_flag (fst (CommentView_Walk jc issue_no comment file w)) = Some b \<longrightarrow>
      file = ''comment'' \<and> \<not> b) \<and>
   (GetComment jc issue_no comment w = (Inr cmt, w') \<longrightarrow>
      close_saver_flag (fst (CommentView_Walk jc issue_no comment ''comment'' w)) = Some False)"
proof -
  have c1: "close_saver_flag (fst (IssueView_normalWalk jc iw file w)) = Some b \<longrightarrow>
      b = (file \<notin> set incremental_files)"
    using normalWalk_flag [of jc iw "file" w b] by blast
  have c2: "GetIssue jc (issueNo iw) w = (Inr issue, w') \<and> file \<in> set truncating_files \<longrightarrow>
      close_saver_flag (fst (IssueView_normalWalk jc iw file w)) = Some True"
    using normalWalk_truncating [of jc iw w issue w' "file"] by blast
  have c3: "GetIssue jc (issueNo iw) w = (Inr issue, w') \<and> file \<in> set incremental_files \<longrightarrow>
      close_saver_flag (fst (IssueView_normalWalk jc iw file w)) = Some False"
    using normalWalk_incremental [of jc iw w issue w' "file"] by blast
  have c4: "close_saver_flag (fst (CommentView_Walk jc issue_no comment file w)) = Some b \<longrightarrow>
      file = ''comment'' \<and> \<not> b"
    using CommentView_flag [of jc issue_no comment "file" w b] by blast
  have c5: "GetComment jc issue_no comment w = (Inr cmt, w') \<longrightarrow>
      close_saver_flag (fst (CommentView_Walk jc issue_no comment ''comment'' w)) = Some False"
    using CommentView_comment_flag [of jc issue_no comment w cmt w'] by blast
  from c1 c2 c3 c4 c5 show ?thesis by blast
qed

theorem forceTrunc_by_file_witness:
  "GetIssue example_client (issueNo example_view) example_tracker
     = (Inr example_issue, logged [''GetIssue'', ''ABC-1''] example_tracker) \<and>
   ''assignee'' \<in> set truncating_files \<and>
   close_saver_flag (fst (IssueView_normalWalk example_client example_view ''assignee'' example_tracker))
     = Some True \<and>
   ''summary'' \<in> set incremental_files \<and>
   close_saver_flag (fst (IssueView_normalWalk example_client example_view ''summary'' example_tracker))
     = Some False \<and>
   ''links'' \<in> set incremental_files \<and>
   close_saver_flag (fst (IssueView_normalWalk example_client example_view ''links'' example_tracker))
     = Some False \<and>
   close_saver_flag (fst (IssueView_normalWalk example_client example_view ''raw'' example_tracker))
     = Some True \<and>
   ''raw'' \<notin> set incremental_files \<and>
   GetComment example_client ''ABC-1'' ''1'' example_tracker
     = (Inr \<lparr>Author_Name = ''ann'', Body = ''first'', Updated = ''today'', Created = ''yesterday''\<rparr>,
        logged [''GetComment'', ''ABC-1'', ''1''] example_tracker) \<and>
   close_saver_flag (fst (CommentView_Walk example_client ''ABC-1'' ''1'' ''comment'' example_tracker))
     = Some False"
proof -
  have g: "GetIssue example_client (issueNo example_view) example_tracker
     = (Inr example_issue, logged [''GetIssue'', ''ABC-1''] example_tracker)"
    by (simp add: example_client_def example_view_def example_tracker_def)
  have m: "''assignee'' \<in> set truncating_files" "''summary'' \<in> set incremental_files"
      "''links'' \<in> set incremental_files" "''raw'' \<notin> set incremental_files"
    by (simp_all add: truncating_files_def incremental_files_def)
  have r: "close_saver_flag (fst (IssueView_normalWalk example_client example_view ''raw'' example_tracker))
     = Some True"
  proof -
    have e: "StringExistsInSets ''raw'' [fst normalFiles, snd normalFiles]"
      by (simp add: normalFiles_def StringExistsInSets_def)
    have s: "normalWalk_switch example_client example_view example_issue ''raw''
        (logged [''GetIssue'', ''ABC-1''] example_tracker)
        = (Inr ([], True, True), logged [''GetIssue'', ''ABC-1''] example_tracker)"
      by (simp add: normalWalk_switch_def example_client_def)
    from normalWalk_fetched [OF e g s] show ?thesis
      by (simp add: close_saver_flag_def)
  qed
  have c: "GetComment example_client ''ABC-1'' ''1'' example_tracker
     = (Inr \<lparr>Author_Name = ''ann'', Body = ''first'', Updated = ''today'', Created = ''yesterday''\<rparr>,
        logged [''GetComment'', ''ABC-1'', ''1''] example_tracker)"
    by (simp add: example_client_def)
  note T = forceTrunc_by_file [where jc = example_client and iw = example_view
      and w = example_tracker and issue = example_issue
      and w' = "logged [''GetIssue'', ''ABC-1''] example_tracker" and b = True
      and issue_no = "''ABC-1''" and comment = "''1''"
      and cmt = "\<lparr>Author_Name = ''ann'', Body = ''first'', Updated = ''today'', Created = ''yesterday''\<rparr>"]
  note U = forceTrunc_by_file [where jc = example_client and iw = example_view
      and w = example_tracker and issue = example_issue and b = True
      and issue_no = "''ABC-1''" and comment = "''1''"
      and w' = "logged [''GetComment'', ''ABC-1'', ''1''] example_tracker"
      and cmt = "\<lparr>Author_Name = ''ann'', Body = ''first'', Updated = ''today'', Created = ''yesterday''\<rparr>"]
  from T [of "''assignee''"] g m have a: "close_saver_flag
      (fst (IssueView_normalWalk example_client example_view ''assignee'' example_tracker)) = Some True"
    by blast
  from T [of "''summary''"] g m have s: "close_saver_flag
      (fst (IssueView_normalWalk example_client example_view ''summary'' example_tracker)) = Some False"
    by blast
  from T [of "''links''"] g m have l: "close_saver_flag
      (fst (IssueView_normalWalk example_client example_view ''links'' example_tracker)) = Some False"
    by blast
  from U [of "''comment''"] c have k: "close_saver_flag
      (fst (CommentView_Walk example_client ''ABC-1'' ''1'' ''comment'' example_tracker)) = Some False"
    by blast
  from g m r c a s l k show ?thesis by blast
qed

text \<open>
  The claim as the specification words it, with the flag true for every file outside
  its list of multi-line fields, fails for \<^verbatim>\<open>summary\<close>: the source sets the flag to false
  there, although the summary is a single line (its write drops every newline).
\<close>

theorem forceTrunc_summary_counterexample:
  "close_saver_flag (fst (IssueView_normalWalk example_client example_view ''summary'' example_tracker))
     = Some False \<and>
   ''summary'' \<notin> set spec_multi_line_fields \<and>
   normalWalk_onClose example_client example_view example_issue ''summary''
       (''Crash'' @ [newline] @ ''again'' @ [newline]) [] example_tracker
     = (None, logged [''SetFieldInIssue'', ''ABC-1'', ''summary'', ''Crashagain''] example_tracker) \<and>
   \<not> (\<forall>(jc :: tracker Client) iw nm w b.
        close_saver_flag (fst (IssueView_normalWalk jc iw nm w)) = Some b \<longrightarrow>
        b = (nm \<notin> set spec_multi_line_fields))"
proof -
  have g: "GetIssue example_client (issueNo example_view) example_tracker
     = (Inr example_issue, logged [''GetIssue'', ''ABC-1''] example_tracker)"
    by (simp add: example_client_def example_view_def example_tracker_def)
  have f: "close_saver_flag
      (fst (IssueView_normalWalk example_client example_view ''summary'' example_tracker)) = Some False"
    by (simp add: close_saver_flag_def IssueView_normalWalk_def normalFiles_def g
        StringExistsInSets_def normalWalk_switch_def Let_def)
  have m: "''summary'' \<notin> set spec_multi_line_fields"
    by (simp add: spec_multi_line_fields_def)
  have c: "normalWalk_onClose example_client example_view example_issue ''summary''
       (''Crash'' @ [newline] @ ''again'' @ [newline]) [] example_tracker
     = (None, logged [''SetFieldInIssue'', ''ABC-1'', ''summary'', ''Crashagain''] example_tracker)"
    by (simp add: normalWalk_onClose_def remove_newlines_def newline_def example_client_def
        example_issue_def)
  have n: "\<not> (\<forall>(jc :: tracker Client) iw nm w b.
        close_saver_flag (fst (IssueView_normalWalk jc iw nm w)) = Some b \<longrightarrow>
        b = (nm \<notin> set spec_multi_line_fields))"
  proof
    assume "\<forall>(jc :: tracker Client) iw nm w b.
        close_saver_flag (fst (IssueView_normalWalk jc iw nm w)) = Some b \<longrightarrow>
        b = (nm \<notin> set spec_multi_line_fields)"
    with f have "False = (''summary'' \<notin> set spec_multi_line_fields)" by blast
    with m show False by simp
  qed
  from f m c n show ?thesis by blast
qed

section \<open>The modes an issue listing shows\<close>

text \<open>
  Claim C9 at the stored issue. Every entry carries the owner and group \<^verbatim>\<open>jira\<close>, but
  \<^verbatim>\<open>IssueView.List\<close> shows every file as read-write and every directory as a read-write
  directory, whereas \<^verbatim>\<open>Walk\<close> hands out \<^verbatim>\<open>key\<close>, \<^verbatim>\<open>project\<close> and \<^verbatim>\<open>progress\<close> as read-only
  files and \<^verbatim>\<open>comments\<close> as a read-only directory; the two agree on \<^verbatim>\<open>assignee\<close>. The
  listing of a comment view does show its read-only files as read-only, and the listing
  of all issues shows \<^verbatim>\<open>help\<close> with the mode \<^verbatim>\<open>055\<close>, which is neither of the two modes
  used elsewhere.
\<close>

theorem IssueView_List_modes_differ_from_Walk:
  "listed_mode (IssueView_List example_view) ''key'' = Some perm_0777 \<and>
   walked_mode (fst (IssueView_normalWalk example_client example_view ''key'' example_tracker))
     = Some perm_0555 \<and>
   listed_mode (IssueView_List example_view) ''project'' = Some perm_0777 \<and>
   walked_mode (fst (IssueView_normalWalk example_client example_view ''project'' example_tracker))
     = Some perm_0555 \<and>
   listed_mode (IssueView_List example_view) ''progress'' = Some perm_0777 \<and>
   walked_mode (fst (IssueView_normalWalk example_client example_view ''progress'' example_tracker))
     = Some perm_0555 \<and>
   listed_mode (IssueView_List example_view) ''comments'' = Some (perm_0777 OR DMDIR) \<and>
   walked_mode (fst (IssueView_normalWalk example_client example_view ''comments'' example_tracker))
     = Some (perm_0555 OR DMDIR) \<and>
   listed_mode (IssueView_List example_view) ''assignee'' = Some perm_0777 \<and>
   walked_mode (fst (IssueView_normalWalk example_client example_view ''assignee'' example_tracker))
     = Some perm_0777 \<and>
   perm_0777 \<noteq> perm_0555 \<and> perm_0777 OR DMDIR \<noteq> perm_0555 OR DMDIR \<and>
   listed_mode CommentView_List ''author'' = Some perm_0555 \<and>
   listed_mode CommentView_List ''comment'' = Some perm_0777 \<and>
   listed_mode (the_stats (fst (AllIssuesView_List example_client example_tracker))) ''help''
     = Some perm_055 \<and>
   walked_mode (fst (AllIssuesView_Walk example_client ''help'' example_tracker)) = Some perm_0555 \<and>
   perm_055 \<noteq> perm_0555 \<and> perm_055 \<noteq> perm_0777 \<and>
   list_all (\<lambda>e. UID e = ''jira'' \<and> GID e = ''jira'') (IssueView_List example_view)"
proof -
  have l: "listed_mode (IssueView_List example_view) ''key'' = Some perm_0777"
      "listed_mode (IssueView_List example_view) ''project'' = Some perm_0777"
      "listed_mode (IssueView_List example_view) ''progress'' = Some perm_0777"
      "listed_mode (IssueView_List example_view) ''comments'' = Some (perm_0777 OR DMDIR)"
      "listed_mode (IssueView_List example_view) ''assignee'' = Some perm_0777"
    by (simp_all add: listed_mode_def IssueView_List_def example_view_def normalFiles_def
        StringsToStats_def)
  have g: "GetIssue example_client (issueNo example_view) example_tracker
      = (Inr example_issue, logged [''GetIssue'', ''ABC-1''] example_tracker)"
    by (simp add: example_client_def example_view_def example_tracker_def)
  have w: "walked_mode (fst (IssueView_normalWalk example_client example_view ''key'' example_tracker))
        = Some perm_0555"
      "walked_mode (fst (IssueView_normalWalk example_client example_view ''project'' example_tracker))
        = Some perm_0555"
      "walked_mode (fst (IssueView_normalWalk example_client example_view ''progress'' example_tracker))
        = Some perm_0555"
      "walked_mode (fst (IssueView_normalWalk example_client example_view ''comments'' example_tracker))
        = Some (perm_0555 OR DMDIR)"
      "walked_mode (fst (IssueView_normalWalk example_client example_view ''assignee'' example_tracker))
        = Some perm_0777"
    by (simp_all add: walked_mode_def IssueView_normalWalk_def normalFiles_def g
        StringExistsInSets_def normalWalk_switch_def NewJiraDir_def SetContent_def
        NewSyntheticFile_def Let_def)
  have p: "perm_0777 \<noteq> perm_0555" "perm_0777 OR DMDIR \<noteq> perm_0555 OR DMDIR"
    by (simp_all add: perm_0777_def perm_0555_def DMDIR_def)
  have c: "listed_mode CommentView_List ''author'' = Some perm_0555"
      "listed_mode CommentView_List ''comment'' = Some perm_0777"
    by (simp_all add: listed_mode_def CommentView_List_def StringsToStats_def)
  have u: "list_all (\<lambda>e. UID e = ''jira'' \<and> GID e = ''jira'') (IssueView_List example_view)"
    by (simp add: IssueView_List_def example_view_def normalFiles_def StringsToStats_def)
  have h: "listed_mode (the_stats (fst (AllIssuesView_List example_client example_tracker))) ''help''
        = Some perm_055"
      "walked_mode (fst (AllIssuesView_Walk example_client ''help'' example_tracker)) = Some perm_0555"
      "perm_055 \<noteq> perm_0555" "perm_055 \<noteq> perm_0777"
    by (simp_all add: listed_mode_def the_stats_def AllIssuesView_List_def example_client_def
        example_tracker_def StringsToStats_def walked_mode_def AllIssuesView_Walk_def
        SetContent_def NewSyntheticFile_def perm_055_def perm_0555_def perm_0777_def)
  from l w p c u h show ?thesis by blast
qed

section \<open>Newlines in a written value\<close>

lemma onClose_scalar:
  "file \<in> set scalar_files \<Longrightarrow>
     normalWalk_onClose jc iw issue file content visit w
       = SetFieldInIssue jc (Key issue) file (remove_newlines content) w"
  unfolding scalar_files_def set_simps insert_iff empty_iff
  by (elim disjE FalseE) (simp_all add: normalWalk_onClose_def)

lemma onClose_verbatim:
  "file \<in> set verbatim_files \<Longrightarrow>
     normalWalk_onClose jc iw issue file content visit w
       = SetFieldInIssue jc (Key issue) file content w"
  unfolding verbatim_files_def set_simps insert_iff empty_iff
  by (elim disjE FalseE) (simp_all add: normalWalk_onClose_def)

lemma onClose_transition:
  "normalWalk_onClose jc iw issue ''transition'' content visit w
     = TransitionIssue jc (Key issue) (remove_newlines content) w"
  by (simp add: normalWalk_onClose_def)

lemma onClose_status:
  assumes "GetIssue jc (issueNo iw) w = (Inr fetched, w')" and "Fields fetched = Some f"
    and "Status f = Some status"
    and "BuildWorkflow2 jc (project iw) (Type_ID f) w' = (Inr wg, w'')"
  shows "normalWalk_onClose jc iw issue ''status'' content visit w =
     (case Path wg status (remove_newlines content) 500 of
        Inl err \<Rightarrow> (Some err, w'')
      | Inr p \<Rightarrow> transition_each jc (Key fetched) p w'')"
  using assms by (simp add: normalWalk_onClose_def)

lemma remove_newlines_free: "newline \<notin> set (remove_newlines content)"
  by (simp add: remove_newlines_def)

lemma remove_newlines_trailing:
  assumes "newline \<notin> set (spec_strip_trailing_newlines content)"
  shows "remove_newlines content = spec_strip_trailing_newlines content"
proof -
  let ?P = "\<lambda>c. c = newline"
  have "rev content = takeWhile ?P (rev content) @ dropWhile ?P (rev content)"
    by simp
  then have "content = rev (dropWhile ?P (rev content)) @ rev (takeWhile ?P (rev content))"
    by (metis rev_append rev_rev_ident)
  then have c: "content = spec_strip_trailing_newlines content @ rev (takeWhile ?P (rev content))"
    by (simp add: spec_strip_trailing_newlines_def)
  have t: "filter (\<lambda>c. c \<noteq> newline) (rev (takeWhile ?P (rev content))) = []"
    by (simp add: filter_empty_conv) (metis set_takeWhileD)
  from assms have k: "filter (\<lambda>c. c \<noteq> newline) (spec_strip_trailing_newlines content)
      = spec_strip_trailing_newlines content"
    by (simp add: filter_id_conv) metis
  have "remove_newlines content
      = filter (\<lambda>c. c \<noteq> newline) (spec_strip_trailing_newlines content @ rev (takeWhile ?P (rev content)))"
    using c by (simp add: remove_newlines_def)
  also have "\<dots> = spec_strip_trailing_newlines content"
    using t k by simp
  finally show ?thesis .
qed

text \<open>
  Claim C8, as amended. A write to \<^verbatim>\<open>transition\<close> executes the transition named by the
  content with every newline character removed; a write to \<^verbatim>\<open>status\<close> asks for a path to
  the status named by the content with every newline removed; a write to \<^verbatim>\<open>assignee\<close>,
  \<^verbatim>\<open>reporter\<close>, \<^verbatim>\<open>creator\<close>, \<^verbatim>\<open>summary\<close>, \<^verbatim>\<open>type\<close>, \<^verbatim>\<open>priority\<close> or \<^verbatim>\<open>resolution\<close> sets the
  field to the content with every newline removed; a write to \<^verbatim>\<open>description\<close>, \<^verbatim>\<open>labels\<close>
  or \<^verbatim>\<open>components\<close> sets the field to the content as it is. What is left after the
  removal holds no newline, and it is the content stripped of its trailing newlines
  whenever that holds no newline either.
\<close>

theorem every_newline_removed_before_write:
  "normalWalk_onClose jc iw issue ''transition'' content visit w
     = TransitionIssue jc (Key issue) (remove_newlines content) w \<and>
   (GetIssue jc (issueNo iw) w = (Inr fetched, w') \<and> Fields fetched = Some f \<and>
    Status f = Some status \<and> BuildWorkflow2 jc (project iw) (Type_ID f) w' = (Inr wg, w'') \<longrightarrow>
      normalWalk_onClose jc iw issue ''status'' content visit w =
        (case Path wg status (remove_newlines content) 500 of
           Inl err \<Rightarrow> (Some err, w'')
         | Inr p \<Rightarrow> transition_each jc (Key fetched) p w'')) \<and>
   (file \<in> set scalar_files \<longrightarrow>
      normalWalk_onClose jc iw issue file content visit w
        = SetFieldInIssue jc (Key issue) file (remove_newlines content) w) \<and>
   (file \<in> set verbatim_files \<longrightarrow>
      normalWalk_onClose jc iw issue file content visit w
        = SetFieldInIssue jc (Key issue) file content w) \<and>
   newline \<notin> set (remove_newlines content) \<and>
   (newline \<notin> set (spec_strip_trailing_newlines content) \<longrightarrow>
      remove_newlines content = spec_strip_trailing_newlines content)"
proof -
  have c2: "GetIssue jc (issueNo iw) w = (Inr fetched, w') \<and> Fields fetched = Some f \<and>
    Status f = Some status \<and> BuildWorkflow2 jc (project iw) (Type_ID f) w' = (Inr wg, w'') \<longrightarrow>
      normalWalk_onClose jc iw issue ''status'' content visit w =
        (case Path wg status (remove_newlines content) 500 of
           Inl err \<Rightarrow> (Some err, w'')
         | Inr p \<Rightarrow> transition_each jc (Key fetched) p w'')"
    using onClose_status [of jc iw w fetched w' f status wg w'' issue content visit] by blast
  have c3: "file \<in> set scalar_files \<longrightarrow>
      normalWalk_onClose jc iw issue file content visit w
        = SetFieldInIssue jc (Key issue) file (remove_newlines content) w"
    using onClose_scalar [of "file" jc iw issue content visit w] by blast
  have c4: "file \<in> set verbatim_files \<longrightarrow>
      normalWalk_onClose jc iw issue file content visit w
        = SetFieldInIssue jc (Key issue) file content w"
    using onClose_verbatim [of "file" jc iw issue content visit w] by blast
  have c6: "newline \<notin> set (spec_strip_trailing_newlines content) \<longrightarrow>
      remove_newlines content = spec_strip_trailing_newlines content"
    using remove_newlines_trailing [of content] by blast
  from onClose_transition [of jc iw issue content visit w] c2 c3 c4 c6
    remove_newlines_free [of content]
  show ?thesis by blast
qed

theorem every_newline_removed_before_write_witness:
  "normalWalk_onClose example_client example_view example_issue ''transition''
       (''Start'' @ [newline]) [] example_tracker
     = (None, logged [''TransitionIssue'', ''ABC-1'', ''Start''] example_tracker) \<and>
   GetIssue example_client (issueNo example_view) example_tracker
     = (Inr example_issue, logged [''GetIssue'', ''ABC-1''] example_tracker) \<and>
   Fields example_issue \<noteq> None \<and>
   Status example_fields = Some ''Open'' \<and>
   BuildWorkflow2 example_client (project example_view) (Type_ID example_fields)
       (logged [''GetIssue'', ''ABC-1''] example_tracker)
     = (Inr example_workflow,
        logged [''BuildWorkflow2'', ''ABC'', ''1''] (logged [''GetIssue'', ''ABC-1''] example_tracker)) \<and>
   calls (snd (normalWalk_onClose example_client example_view example_issue ''status''
       (''Closed'' @ [newline]) [] example_tracker))
     = [[''GetIssue'', ''ABC-1''], [''BuildWorkflow2'', ''ABC'', ''1''],
        [''TransitionIssue'', ''ABC-1'', ''Start''], [''TransitionIssue'', ''ABC-1'', ''Resolve'']] \<and>
   ''assignee'' \<in> set scalar_files \<and>
   normalWalk_onClose example_client example_view example_issue ''assignee''
       (''ann'' @ [newline]) [] example_tracker
     = (None, logged [''SetFieldInIssue'', ''ABC-1'', ''assignee'', ''ann''] example_tracker) \<and>
   ''description'' \<in> set verbatim_files \<and>
   normalWalk_onClose example_client example_view example_issue ''description''
       (''one'' @ [newline] @ ''two'' @ [newline]) [] example_tracker
     = (None, logged [''SetFieldInIssue'', ''ABC-1'', ''description'',
                       ''one'' @ [newline] @ ''two'' @ [newline]] example_tracker) \<and>
   newline \<notin> set (spec_strip_trailing_newlines (''ann'' @ [newline])) \<and>
   remove_newlines (''ann'' @ [newline]) = ''ann'' \<and>
   spec_strip_trailing_newlines (''ann'' @ [newline]) = ''ann''"
proof -
  let ?w1 = "logged [''GetIssue'', ''ABC-1''] example_tracker"
  let ?w2 = "logged [''BuildWorkflow2'', ''ABC'', ''1''] ?w1"
  have g: "GetIssue example_client (issueNo example_view) example_tracker = (Inr example_issue, ?w1)"
    by (simp add: example_client_def example_view_def example_tracker_def)
  have f: "Fields example_issue = Some example_fields" "Fields example_issue \<noteq> None"
      "Status example_fields = Some ''Open''"
      "Type_ID example_fields = ''1''" "Key example_issue = ''ABC-1''"
    by (simp_all add: example_issue_def example_fields_def)
  have b: "BuildWorkflow2 example_client (project example_view) (Type_ID example_fields) ?w1
      = (Inr example_workflow, ?w2)"
    by (simp add: f) (simp add: example_client_def example_view_def example_tracker_def logged_def)
  have p: "Path example_workflow ''Open'' (remove_newlines (''Closed'' @ [newline])) 500
      = Inr [''Start'', ''Resolve'']"
    by (simp add: remove_newlines_def newline_def Path_def example_workflow_def edges_def
        numeral_eq_Suc)
  have m: "''assignee'' \<in> set scalar_files" "''description'' \<in> set verbatim_files"
    by (simp_all add: scalar_files_def verbatim_files_def)
  have s: "spec_strip_trailing_newlines (''ann'' @ [newline]) = ''ann''"
      "remove_newlines (''ann'' @ [newline]) = ''ann''"
      "remove_newlines (''Start'' @ [newline]) = ''Start''"
    by (simp_all add: spec_strip_trailing_newlines_def remove_newlines_def newline_def)
  have n: "newline \<notin> set (spec_strip_trailing_newlines (''ann'' @ [newline]))"
    unfolding s(1) by (simp add: newline_def)
  note T = every_newline_removed_before_write [where jc = example_client and iw = example_view
      and issue = example_issue and visit = "[]" and w = example_tracker
      and fetched = example_issue and w' = ?w1 and f = example_fields
      and status = "''Open''" and wg = example_workflow and w'' = ?w2]
  from T [of "''Start'' @ [newline]" "''assignee''"] s f
  have t: "normalWalk_onClose example_client example_view example_issue ''transition''
       (''Start'' @ [newline]) [] example_tracker
     = (None, logged [''TransitionIssue'', ''ABC-1'', ''Start''] example_tracker)"
    by (simp add: example_client_def example_tracker_def)
  from T [of "''Closed'' @ [newline]" "''assignee''"] g f b p
  have "normalWalk_onClose example_client example_view example_issue ''status''
       (''Closed'' @ [newline]) [] example_tracker
     = transition_each example_client ''ABC-1'' [''Start'', ''Resolve''] ?w2"
    by simp
  then have u: "calls (snd (normalWalk_onClose example_client example_view example_issue ''status''
       (''Closed'' @ [newline]) [] example_tracker))
     = [[''GetIssue'', ''ABC-1''], [''BuildWorkflow2'', ''ABC'', ''1''],
        [''TransitionIssue'', ''ABC-1'', ''Start''], [''TransitionIssue'', ''ABC-1'', ''Resolve'']]"
    by (simp add: example_client_def example_tracker_def logged_def)
  from T [of "''ann'' @ [newline]" "''assignee''"] m s f
  have a: "normalWalk_onClose example_client example_view example_issue ''assignee''
       (''ann'' @ [newline]) [] example_tracker
     = (None, logged [''SetFieldInIssue'', ''ABC-1'', ''assignee'', ''ann''] example_tracker)"
    by (simp add: example_client_def)
  from T [of "''one'' @ [newline] @ ''two'' @ [newline]" "''description''"] m f
  have d: "normalWalk_onClose example_client example_view example_issue ''description''
       (''one'' @ [newline] @ ''two'' @ [newline]) [] example_tracker
     = (None, logged [''SetFieldInIssue'', ''ABC-1'', ''description'',
                       ''one'' @ [newline] @ ''two'' @ [newline]] example_tracker)"
    by (simp add: example_client_def)
  from t g f b u m a d n s show ?thesis by simp
qed

text \<open>
  The claim as the specification words it, with only the trailing newlines stripped,
  fails on a content with a newline inside: the two lines \<^verbatim>\<open>ann\<close> and \<^verbatim>\<open>bob\<close> are sent as
  \<^verbatim>\<open>annbob\<close>.
\<close>

theorem trailing_strip_counterexample:
  "''assignee'' \<in> set scalar_files \<and>
   normalWalk_onClose example_client example_view example_issue ''assignee''
       (''ann'' @ [newline] @ ''bob'' @ [newline]) [] example_tracker
     = (None, logged [''SetFieldInIssue'', ''ABC-1'', ''assignee'', ''annbob''] example_tracker) \<and>
   spec_strip_trailing_newlines (''ann'' @ [newline] @ ''bob'' @ [newline])
     = ''ann'' @ [newline] @ ''bob'' \<and>
   ''annbob'' \<noteq> ''ann'' @ [newline] @ ''bob'' \<and>
   \<not> (\<forall>(jc :: tracker Client) iw issue content visit w.
         normalWalk_onClose jc iw issue ''assignee'' content visit w
           = SetFieldInIssue jc (Key issue) ''assignee'' (spec_strip_trailing_newlines content) w)"
proof -
  have m: "''assignee'' \<in> set scalar_files" by (simp add: scalar_files_def)
  have a: "normalWalk_onClose example_client example_view example_issue ''assignee''
       (''ann'' @ [newline] @ ''bob'' @ [newline]) [] example_tracker
     = (None, logged [''SetFieldInIssue'', ''ABC-1'', ''assignee'', ''annbob''] example_tracker)"
    by (simp add: normalWalk_onClose_def remove_newlines_def newline_def example_client_def
        example_issue_def)
  have s: "spec_strip_trailing_newlines (''ann'' @ [newline] @ ''bob'' @ [newline])
     = ''ann'' @ [newline] @ ''bob''"
    by (simp add: spec_strip_trailing_newlines_def newline_def)
  have d: "''annbob'' \<noteq> ''ann'' @ [newline] @ ''bob''" by simp
  have n: "\<not> (\<forall>(jc :: tracker Client) iw issue content visit w.
         normalWalk_onClose jc iw issue ''assignee'' content visit w
           = SetFieldInIssue jc (Key issue) ''assignee'' (spec_strip_trailing_newlines content) w)"
  proof
    assume "\<forall>(jc :: tracker Client) iw issue content visit w.
         normalWalk_onClose jc iw issue ''assignee'' content visit w
           = SetFieldInIssue jc (Key issue) ''assignee'' (spec_strip_trailing_newlines content) w"
    then have "normalWalk_onClose example_client example_view example_issue ''assignee''
         (''ann'' @ [newline] @ ''bob'' @ [newline]) [] example_tracker
       = SetFieldInIssue example_client (Key example_issue) ''assignee''
           (spec_strip_trailing_newlines (''ann'' @ [newline] @ ''bob'' @ [newline])) example_tracker"
      by blast
    with a s have "logged [''SetFieldInIssue'', ''ABC-1'', ''assignee'', ''annbob''] example_tracker
        = logged [''SetFieldInIssue'', ''ABC-1'', ''assignee'', ''ann'' @ [newline] @ ''bob''] example_tracker"
      by (simp add: example_client_def example_issue_def)
    then have "calls (logged [''SetFieldInIssue'', ''ABC-1'', ''assignee'', ''annbob''] example_tracker)
        = calls (logged [''SetFieldInIssue'', ''ABC-1'', ''assignee'', ''ann'' @ [newline] @ ''bob''] example_tracker)"
      by simp
    then show False by (simp add: logged_def)
  qed
  from m a s d n show ?thesis by blast
qed

section \<open>Writing the status\<close>

lemma transition_each_all:
  "transitions_succeed jc key p w = Some v \<Longrightarrow> transition_each jc key p w = (None, v)"
  by (induction p arbitrary: w) (auto split: prod.splits option.splits)

lemma transition_each_stops:
  "transitions_succeed jc key before w = Some v \<Longrightarrow> TransitionIssue jc key s v = (Some err, v')
     \<Longrightarrow> transition_each jc key (before @ s # after) w = (Some err, v')"
  by (induction before arbitrary: w) (auto split: prod.splits option.splits)

lemma transition_each_cases:
  "(\<exists>v. transitions_succeed jc key p w = Some v \<and> transition_each jc key p w = (None, v)) \<or>
   (\<exists>before s after v err v'. p = before @ s # after \<and>
      transitions_succeed jc key before w = Some v \<and>
      TransitionIssue jc key s v = (Some err, v') \<and>
      transition_each jc key p w = (Some err, v'))"
proof (induction p arbitrary: w)
  case Nil
  then show ?case by simp
next
  case (Cons s p)
  obtain r w' where t: "TransitionIssue jc key s w = (r, w')"
    by (cases "TransitionIssue jc key s w")
  show ?case
  proof (cases r)
    case None
    from Cons.IH [of w'] show ?thesis
    proof
      assume "\<exists>v. transitions_succeed jc key p w' = Some v \<and> transition_each jc key p w' = (None, v)"
      with t None show ?thesis by simp
    next
      assume "\<exists>before s' after v err v'. p = before @ s' # after \<and>
        transitions_succeed jc key before w' = Some v \<and>
        TransitionIssue jc key s' v = (Some err, v') \<and>
        transition_each jc key p w' = (Some err, v')"
      then obtain before s' after v err v' where h: "p = before @ s' # after"
        "transitions_succeed jc key before w' = Some v"
        "TransitionIssue jc key s' v = (Some err, v')"
        "transition_each jc key p w' = (Some err, v')"
        by blast
      from h t None have "s # p = (s # before) @ s' # after \<and>
        transitions_succeed jc key (s # before) w = Some v \<and>
        TransitionIssue jc key s' v = (Some err, v') \<and>
        transition_each jc key (s # p) w = (Some err, v')"
        by simp
      then show ?thesis by blast
    qed
  next
    case (Some err)
    with t have "s # p = [] @ s # p \<and> transitions_succeed jc key [] w = Some w \<and>
        TransitionIssue jc key s w = (Some err, w') \<and>
        transition_each jc key (s # p) w = (Some err, w')"
      by simp
    then show ?thesis by blast
  qed
qed

text \<open>
  Claim C2. When the status file is closed and the issue, its status and the workflow
  graph have been fetched, the path from the current status to the written one is
  computed with the bound 500. If every transition of the path succeeds in turn, the
  write succeeds and leaves the state the last transition left. If the transitions
  before some transition of the path succeed and that one fails, the write returns its
  error and the state that the failed call left: what the earlier transitions did
  stays, and nothing of the rest of the path is executed. If no path is found, the
  error of the resolver is returned and no transition is made. The last part says that
  for every path one of the first two cases applies.
\<close>

theorem status_write_executes_path:
  "(GetIssue jc (issueNo iw) w = (Inr fetched, w') \<and> Fields fetched = Some f \<and>
    Status f = Some status \<and> BuildWorkflow2 jc (project iw) (Type_ID f) w' = (Inr wg, w'') \<and>
    Path wg status (remove_newlines content) 500 = Inr p \<and>
    transitions_succeed jc (Key fetched) p w'' = Some v \<longrightarrow>
      normalWalk_onClose jc iw issue ''status'' content visit w = (None, v)) \<and>
   (GetIssue jc (issueNo iw) w = (Inr fetched, w') \<and> Fields fetched = Some f \<and>
    Status f = Some status \<and> BuildWorkflow2 jc (project iw) (Type_ID f) w' = (Inr wg, w'') \<and>
    Path wg status (remove_newlines content) 500 = Inr (before @ s # after) \<and>
    transitions_succeed jc (Key fetched) before w'' = Some v \<and>
    TransitionIssue jc (Key fetched) s v = (Some err, v') \<longrightarrow>
      normalWalk_onClose jc iw issue ''status'' content visit w = (Some err, v')) \<and>
   (GetIssue jc (issueNo iw) w = (Inr fetched, w') \<and> Fields fetched = Some f \<and>
    Status f = Some status \<and> BuildWorkflow2 jc (project iw) (Type_ID f) w' = (Inr wg, w'') \<and>
    Path wg status (remove_newlines content) 500 = Inl err \<longrightarrow>
      normalWalk_onClose jc iw issue ''status'' content visit w = (Some err, w'')) \<and>
   ((\<exists>v. transitions_succeed jc key p w = Some v \<and> transition_each jc key p w = (None, v)) \<or>
    (\<exists>before s after v err v'. p = before @ s # after \<and>
       transitions_succeed jc key before w = Some v \<and>
       TransitionIssue jc key s v = (Some err, v') \<and>
       transition_each jc key p w = (Some err, v')))"
proof -
  have c1: "GetIssue jc (issueNo iw) w = (Inr fetched, w') \<and> Fields fetched = Some f \<and>
    Status f = Some status \<and> BuildWorkflow2 jc (project iw) (Type_ID f) w' = (Inr wg, w'') \<and>
    Path wg status (remove_newlines content) 500 = Inr p \<and>
    transitions_succeed jc (Key fetched) p w'' = Some v \<longrightarrow>
      normalWalk_onClose jc iw issue ''status'' content visit w = (None, v)"
    by (simp add: normalWalk_onClose_def transition_each_all)
  have c2: "GetIssue jc (issueNo iw) w = (Inr fetched, w') \<and> Fields fetched = Some f \<and>
    Status f = Some status \<and> BuildWorkflow2 jc (project iw) (Type_ID f) w' = (Inr wg, w'') \<and>
    Path wg status (remove_newlines content) 500 = Inr (before @ s # after) \<and>
    transitions_succeed jc (Key fetched) before w'' = Some v \<and>
    TransitionIssue jc (Key fetched) s v = (Some err, v') \<longrightarrow>
      normalWalk_onClose jc iw issue ''status'' content visit w = (Some err, v')"
    by (simp add: normalWalk_onClose_def transition_each_stops)
  have c3: "GetIssue jc (issueNo iw) w = (Inr fetched, w') \<and> Fields fetched = Some f \<and>
    Status f = Some status \<and> BuildWorkflow2 jc (project iw) (Type_ID f) w' = (Inr wg, w'') \<and>
    Path wg status (remove_newlines content) 500 = Inl err \<longrightarrow>
      normalWalk_onClose jc iw issue ''status'' content visit w = (Some err, w'')"
    by (simp add: normalWalk_onClose_def)
  from c1 c2 c3 transition_each_cases [of jc key p w] show ?thesis by blast
qed

theorem status_write_executes_path_witness:
  "GetIssue example_client (issueNo example_view) example_tracker
     = (Inr example_issue, logged [''GetIssue'', ''ABC-1''] example_tracker) \<and>
   Fields example_issue = Some example_fields \<and>
   Status example_fields = Some ''Open'' \<and>
   BuildWorkflow2 example_client (project example_view) (Type_ID example_fields)
       (logged [''GetIssue'', ''ABC-1''] example_tracker)
     = (Inr example_workflow,
        logged [''BuildWorkflow2'', ''ABC'', ''1''] (logged [''GetIssue'', ''ABC-1''] example_tracker)) \<and>
   Path example_workflow ''Open'' (remove_newlines (''Closed'' @ [newline])) 500
     = Inr [''Start'', ''Resolve''] \<and>
   normalWalk_onClose example_client example_view example_issue ''status''
       (''Closed'' @ [newline]) [] example_tracker
     = (None, example_tracker\<lparr>calls :=
          [[''GetIssue'', ''ABC-1''], [''BuildWorkflow2'', ''ABC'', ''1''],
           [''TransitionIssue'', ''ABC-1'', ''Start''],
           [''TransitionIssue'', ''ABC-1'', ''Resolve'']]\<rparr>) \<and>
   BuildWorkflow2 example_client (project example_view) (Type_ID example_fields)
       (logged [''GetIssue'', ''ABC-1''] stubborn_tracker)
     = (Inr long_workflow,
        logged [''BuildWorkflow2'', ''ABC'', ''1''] (logged [''GetIssue'', ''ABC-1''] stubborn_tracker)) \<and>
   Path long_workflow ''Open'' (remove_newlines (''Closed'' @ [newline])) 500
     = Inr ([''Start''] @ ''Resolve'' # [''Close'']) \<and>
   normalWalk_onClose example_client example_view example_issue ''status''
       (''Closed'' @ [newline]) [] stubborn_tracker
     = (Some (RemoteError ''refused''), stubborn_tracker\<lparr>calls :=
          [[''GetIssue'', ''ABC-1''], [''BuildWorkflow2'', ''ABC'', ''1''],
           [''TransitionIssue'', ''ABC-1'', ''Start''],
           [''TransitionIssue'', ''ABC-1'', ''Resolve'']]\<rparr>) \<and>
   Path example_workflow ''Open'' (remove_newlines (''Nowhere'' @ [newline])) 500
     = Inl (NoPathFound 500) \<and>
   normalWalk_onClose example_client example_view example_issue ''status''
       (''Nowhere'' @ [newline]) [] example_tracker
     = (Some (NoPathFound 500), example_tracker\<lparr>calls :=
          [[''GetIssue'', ''ABC-1''], [''BuildWorkflow2'', ''ABC'', ''1'']]\<rparr>)"
proof -
  let ?w1 = "logged [''GetIssue'', ''ABC-1''] example_tracker"
  let ?w2 = "logged [''BuildWorkflow2'', ''ABC'', ''1''] ?w1"
  let ?s1 = "logged [''GetIssue'', ''ABC-1''] stubborn_tracker"
  let ?s2 = "logged [''BuildWorkflow2'', ''ABC'', ''1''] ?s1"
  let ?s3 = "logged [''TransitionIssue'', ''ABC-1'', ''Start''] ?s2"
  let ?s4 = "logged [''TransitionIssue'', ''ABC-1'', ''Resolve''] ?s3"
  let ?w4 = "logged [''TransitionIssue'', ''ABC-1'', ''Resolve'']
               (logged [''TransitionIssue'', ''ABC-1'', ''Start''] ?w2)"
  have g: "GetIssue example_client (issueNo example_view) example_tracker = (Inr example_issue, ?w1)"
      "GetIssue example_client (issueNo example_view) stubborn_tracker = (Inr example_issue, ?s1)"
    by (simp_all add: example_client_def example_view_def example_tracker_def stubborn_tracker_def)
  have f: "Fields example_issue = Some example_fields" "Status example_fields = Some ''Open''"
      "Type_ID example_fields = ''1''" "Key example_issue = ''ABC-1''"
    by (simp_all add: example_issue_def example_fields_def)
  have b: "BuildWorkflow2 example_client (project example_view) (Type_ID example_fields) ?w1
        = (Inr example_workflow, ?w2)"
      "BuildWorkflow2 example_client (project example_view) (Type_ID example_fields) ?s1
        = (Inr long_workflow, ?s2)"
    by (simp_all add: f example_client_def example_view_def example_tracker_def stubborn_tracker_def
        logged_def)
  have p: "Path example_workflow ''Open'' (remove_newlines (''Closed'' @ [newline])) 500
        = Inr [''Start'', ''Resolve'']"
      "Path long_workflow ''Open'' (remove_newlines (''Closed'' @ [newline])) 500
        = Inr ([''Start''] @ ''Resolve'' # [''Close''])"
      "Path example_workflow ''Open'' (remove_newlines (''Nowhere'' @ [newline])) 500
        = Inl (NoPathFound 500)"
    by (simp_all add: remove_newlines_def newline_def Path_def example_workflow_def
        long_workflow_def edges_def numeral_eq_Suc)
  have t: "transitions_succeed example_client (Key example_issue) [''Start'', ''Resolve''] ?w2 = Some ?w4"
      "transitions_succeed example_client (Key example_issue) [''Start''] ?s2 = Some ?s3"
      "TransitionIssue example_client (Key example_issue) ''Resolve'' ?s3
         = (Some (RemoteError ''refused''), ?s4)"
    by (simp_all add: f example_client_def example_tracker_def stubborn_tracker_def logged_def)
  have e: "?w4 = example_tracker\<lparr>calls :=
          [[''GetIssue'', ''ABC-1''], [''BuildWorkflow2'', ''ABC'', ''1''],
           [''TransitionIssue'', ''ABC-1'', ''Start''],
           [''TransitionIssue'', ''ABC-1'', ''Resolve'']]\<rparr>"
      "?s4 = stubborn_tracker\<lparr>calls :=
          [[''GetIssue'', ''ABC-1''], [''BuildWorkflow2'', ''ABC'', ''1''],
           [''TransitionIssue'', ''ABC-1'', ''Start''],
           [''TransitionIssue'', ''ABC-1'', ''Resolve'']]\<rparr>"
      "?w2 = example_tracker\<lparr>calls :=
          [[''GetIssue'', ''ABC-1''], [''BuildWorkflow2'', ''ABC'', ''1'']]\<rparr>"
    by (simp_all add: logged_def example_tracker_def stubborn_tracker_def)
  note A = status_write_executes_path [where jc = example_client and iw = example_view
      and w = example_tracker and fetched = example_issue and w' = ?w1 and f = example_fields
      and status = "''Open''" and wg = example_workflow and w'' = ?w2
      and content = "''Closed'' @ [newline]" and p = "[''Start'', ''Resolve'']" and v = ?w4
      and issue = example_issue and visit = "[]"]
  note B = status_write_executes_path [where jc = example_client and iw = example_view
      and w = stubborn_tracker and fetched = example_issue and w' = ?s1 and f = example_fields
      and status = "''Open''" and wg = long_workflow and w'' = ?s2
      and content = "''Closed'' @ [newline]" and before = "[''Start'']" and s = "''Resolve''"
      and after = "[''Close'']" and v = ?s3 and err = "RemoteError ''refused''" and v' = ?s4
      and issue = example_issue and visit = "[]"]
  note C = status_write_executes_path [where jc = example_client and iw = example_view
      and w = example_tracker and fetched = example_issue and w' = ?w1 and f = example_fields
      and status = "''Open''" and wg = example_workflow and w'' = ?w2
      and content = "''Nowhere'' @ [newline]" and err = "NoPathFound 500"
      and issue = example_issue and visit = "[]"]
  from A g f b p t have a: "normalWalk_onClose example_client example_view example_issue ''status''
       (''Closed'' @ [newline]) [] example_tracker = (None, ?w4)"
    by blast
  from B g f b p t have s: "normalWalk_onClose example_client example_view example_issue ''status''
       (''Closed'' @ [newline]) [] stubborn_tracker = (Some (RemoteError ''refused''), ?s4)"
    by blast
  from C g f b p have n: "normalWalk_onClose example_client example_view example_issue ''status''
       (''Nowhere'' @ [newline]) [] example_tracker = (Some (NoPathFound 500), ?w2)"
    by blast
  from a have a': "normalWalk_onClose example_client example_view example_issue ''status''
       (''Closed'' @ [newline]) [] example_tracker
     = (None, example_tracker\<lparr>calls :=
          [[''GetIssue'', ''ABC-1''], [''BuildWorkflow2'', ''ABC'', ''1''],
           [''TransitionIssue'', ''ABC-1'', ''Start''],
           [''TransitionIssue'', ''ABC-1'', ''Resolve'']]\<rparr>)"
    by (simp only: e(1))
  from s have s': "normalWalk_onClose example_client example_view example_issue ''status''
       (''Closed'' @ [newline]) [] stubborn_tracker
     = (Some (RemoteError ''refused''), stubborn_tracker\<lparr>calls :=
          [[''GetIssue'', ''ABC-1''], [''BuildWorkflow2'', ''ABC'', ''1''],
           [''TransitionIssue'', ''ABC-1'', ''Start''],
           [''TransitionIssue'', ''ABC-1'', ''Resolve'']]\<rparr>)"
    by (simp only: e(2))
  from n have n': "normalWalk_onClose example_client example_view example_issue ''status''
       (''Nowhere'' @ [newline]) [] example_tracker
     = (Some (NoPathFound 500), example_tracker\<lparr>calls :=
          [[''GetIssue'', ''ABC-1''], [''BuildWorkflow2'', ''ABC'', ''1'']]\<rparr>)"
    by (simp only: e(3))
  from g f b p a' s' n' show ?thesis by blast
qed

section \<open>Writing the links\<close>






lemma fold_remove1_Nil [simp]: "fold remove1 rs [] = []"
  by (induction rs) auto















section \<open>The path the resolver returns\<close>

lemma is_path_snoc:
  "is_path g a (p @ [n]) c \<longleftrightarrow> (\<exists>b. is_path g a p b \<and> (n, c) \<in> set (edges g b))"
  by (induction p arbitrary: a) auto

lemma reach_0 [simp]: "reach g from 0 t \<longleftrightarrow> t = from"
  by (auto simp: reach_def)

lemma reach_Suc:
  "reach g from (Suc k) t \<longleftrightarrow> (\<exists>s n. reach g from k s \<and> (n, t) \<in> set (edges g s))"
proof
  assume "reach g from (Suc k) t"
  then obtain p where p: "length p = Suc k" "is_path g from p t"
    by (auto simp: reach_def)
  then obtain q n where q: "p = q @ [n]"
    by (cases p rule: rev_cases) auto
  with p obtain b where "is_path g from q b" "(n, t) \<in> set (edges g b)"
    by (auto simp: is_path_snoc)
  with p q show "\<exists>s n. reach g from k s \<and> (n, t) \<in> set (edges g s)"
    by (auto simp: reach_def)
next
  assume "\<exists>s n. reach g from k s \<and> (n, t) \<in> set (edges g s)"
  then obtain s n p where "length p = k" "is_path g from p s" "(n, t) \<in> set (edges g s)"
    by (auto simp: reach_def)
  then have "length (p @ [n]) = Suc k \<and> is_path g from (p @ [n]) t"
    by (auto simp: is_path_snoc)
  then show "reach g from (Suc k) t"
    unfolding reach_def by blast
qed

lemma visit_edges_seen:
  "set (snd (visit_edges p es nxt seen)) = set seen \<union> snd ` set es"
proof (induction es arbitrary: nxt seen)
  case Nil
  then show ?case by simp
next
  case (Cons e es)
  obtain t s' where e: "e = (t, s')" by (cases e)
  show ?case
  proof (cases "s' \<in> set seen")
    case True
    with e Cons.IH [of nxt seen] show ?thesis by auto
  next
    case False
    with e Cons.IH [of "nxt @ [(s', p @ [t])]" "s' # seen"] show ?thesis by auto
  qed
qed

lemma visit_edges_statuses:
  "fst ` set (fst (visit_edges p es nxt seen)) = fst ` set nxt \<union> (snd ` set es - set seen)"
proof (induction es arbitrary: nxt seen)
  case Nil
  then show ?case by simp
next
  case (Cons e es)
  obtain t s' where e: "e = (t, s')" by (cases e)
  show ?case
  proof (cases "s' \<in> set seen")
    case True
    with e Cons.IH [of nxt seen] show ?thesis by auto
  next
    case False
    with e Cons.IH [of "nxt @ [(s', p @ [t])]" "s' # seen"] show ?thesis by auto
  qed
qed

lemma visit_edges_entries:
  "(s', q) \<in> set (fst (visit_edges p es nxt seen))
     \<Longrightarrow> (s', q) \<in> set nxt \<or> (\<exists>t. q = p @ [t] \<and> (t, s') \<in> set es)"
proof (induction es arbitrary: nxt seen)
  case Nil
  then show ?case by simp
next
  case (Cons e es)
  obtain t u where e: "e = (t, u)" by (cases e)
  show ?case
  proof (cases "u \<in> set seen")
    case True
    with e Cons.prems have "(s', q) \<in> set (fst (visit_edges p es nxt seen))" by simp
    from Cons.IH [OF this] e show ?thesis by auto
  next
    case False
    with e Cons.prems
    have "(s', q) \<in> set (fst (visit_edges p es (nxt @ [(u, p @ [t])]) (u # seen)))" by simp
    from Cons.IH [OF this] e show ?thesis by auto
  qed
qed

lemma expand_seen:
  "set (snd (expand g fr nxt seen)) = set seen \<union> successors g fr"
proof (induction fr arbitrary: nxt seen)
  case Nil
  then show ?case by (simp add: successors_def)
next
  case (Cons e fr)
  obtain s p where e: "e = (s, p)" by (cases e)
  obtain nxt' seen' where v: "visit_edges p (edges g s) nxt seen = (nxt', seen')"
    by (cases "visit_edges p (edges g s) nxt seen")
  from v have "set seen' = set seen \<union> snd ` set (edges g s)"
    using visit_edges_seen [of p "edges g s" nxt seen] by simp
  with e v Cons.IH [of nxt' seen'] show ?case
    by (auto simp: successors_def)
qed

lemma expand_statuses:
  "fst ` set (fst (expand g fr nxt seen)) = fst ` set nxt \<union> (successors g fr - set seen)"
proof (induction fr arbitrary: nxt seen)
  case Nil
  then show ?case by (simp add: successors_def)
next
  case (Cons e fr)
  obtain s p where e: "e = (s, p)" by (cases e)
  obtain nxt' seen' where v: "visit_edges p (edges g s) nxt seen = (nxt', seen')"
    by (cases "visit_edges p (edges g s) nxt seen")
  from v have a: "set seen' = set seen \<union> snd ` set (edges g s)"
    using visit_edges_seen [of p "edges g s" nxt seen] by simp
  from v have b: "fst ` set nxt' = fst ` set nxt \<union> (snd ` set (edges g s) - set seen)"
    using visit_edges_statuses [of p "edges g s" nxt seen] by simp
  have "fst ` set (fst (expand g (e # fr) nxt seen)) = fst ` set (fst (expand g fr nxt' seen'))"
    using e v by simp
  also have "\<dots> = fst ` set nxt' \<union> (successors g fr - set seen')"
    by (rule Cons.IH)
  also have "\<dots> = fst ` set nxt \<union> (successors g (e # fr) - set seen)"
    unfolding a b using e by (auto simp: successors_def)
  finally show ?case .
qed

lemma expand_entries:
  "(s', q) \<in> set (fst (expand g fr nxt seen))
     \<Longrightarrow> (s', q) \<in> set nxt \<or>
         (\<exists>(s, p) \<in> set fr. \<exists>t. q = p @ [t] \<and> (t, s') \<in> set (edges g s))"
proof (induction fr arbitrary: nxt seen)
  case Nil
  then show ?case by simp
next
  case (Cons e fr)
  obtain s p where e: "e = (s, p)" by (cases e)
  obtain nxt' seen' where v: "visit_edges p (edges g s) nxt seen = (nxt', seen')"
    by (cases "visit_edges p (edges g s) nxt seen")
  from Cons.prems e v have "(s', q) \<in> set (fst (expand g fr nxt' seen'))" by simp
  from Cons.IH [OF this] show ?case
  proof
    assume "(s', q) \<in> set nxt'"
    with v visit_edges_entries [of s' q p "edges g s" nxt seen]
    have "(s', q) \<in> set nxt \<or> (\<exists>t. q = p @ [t] \<and> (t, s') \<in> set (edges g s))" by simp
    with e show ?thesis by auto
  next
    assume "\<exists>(s, p) \<in> set fr. \<exists>t. q = p @ [t] \<and> (t, s') \<in> set (edges g s)"
    then show ?thesis by auto
  qed
qed

lemma level_inv_start: "level_inv g from 0 [(from, [])] [from]"
  by (auto simp: level_inv_def)

lemma level_inv_step:
  assumes inv: "level_inv g from k fr seen"
    and ex: "expand g fr [] seen = (nxt, seen')"
  shows "level_inv g from (Suc k) nxt seen'"
proof -
  from inv have paths: "\<And>s p. (s, p) \<in> set fr \<Longrightarrow> is_path g from p s \<and> length p = k"
    and level: "fst ` set fr = {t. reach g from k t \<and> (\<forall>j<k. \<not> reach g from j t)}"
    and seen: "set seen = {t. \<exists>j\<le>k. reach g from j t}"
    by (auto simp: level_inv_def)
  from ex have seen': "set seen' = set seen \<union> successors g fr"
    using expand_seen [of g fr "[]" seen] by simp
  from ex have nxt: "fst ` set nxt = successors g fr - set seen"
    using expand_statuses [of g fr "[]" seen] by simp
  have succ_reach: "reach g from (Suc k) t" if "t \<in> successors g fr" for t
  proof -
    from that obtain s p n where "(s, p) \<in> set fr" "(n, t) \<in> set (edges g s)"
      by (auto simp: successors_def)
    with paths [of s p] have "reach g from k s \<and> (n, t) \<in> set (edges g s)"
      by (auto simp: reach_def)
    then show ?thesis by (auto simp: reach_Suc)
  qed
  have reach_succ: "t \<in> successors g fr"
    if r: "reach g from (Suc k) t" and n: "\<forall>j\<le>k. \<not> reach g from j t" for t
  proof -
    from r obtain s n' where s: "reach g from k s" "(n', t) \<in> set (edges g s)"
      by (auto simp: reach_Suc)
    have "\<not> reach g from j s" if "j < k" for j
    proof
      assume "reach g from j s"
      with s have "reach g from (Suc j) t" by (auto simp: reach_Suc)
      moreover from that have "Suc j \<le> k" by simp
      ultimately show False using n by blast
    qed
    with s level have "s \<in> fst ` set fr" by blast
    then obtain p where "(s, p) \<in> set fr" by auto
    with s show ?thesis by (force simp: successors_def)
  qed
  have a: "\<forall>(s, p) \<in> set nxt. is_path g from p s \<and> length p = Suc k"
  proof (clarify)
    fix s' q
    assume "(s', q) \<in> set nxt"
    with ex expand_entries [of s' q g fr "[]" seen]
    obtain s p t where e: "(s, p) \<in> set fr" "q = p @ [t]" "(t, s') \<in> set (edges g s)"
      by auto
    with paths [of s p] show "is_path g from q s' \<and> length q = Suc k"
      by (auto simp: is_path_snoc)
  qed
  have b: "fst ` set nxt = {t. reach g from (Suc k) t \<and> (\<forall>j<Suc k. \<not> reach g from j t)}"
  proof (rule set_eqI)
    fix t
    show "t \<in> fst ` set nxt \<longleftrightarrow>
        t \<in> {t. reach g from (Suc k) t \<and> (\<forall>j<Suc k. \<not> reach g from j t)}"
    proof
      assume "t \<in> fst ` set nxt"
      with nxt have t: "t \<in> successors g fr" "t \<notin> set seen" by auto
      from t(2) seen have "\<forall>j<Suc k. \<not> reach g from j t" by (auto simp: less_Suc_eq_le)
      with succ_reach [OF t(1)]
      show "t \<in> {t. reach g from (Suc k) t \<and> (\<forall>j<Suc k. \<not> reach g from j t)}" by simp
    next
      assume "t \<in> {t. reach g from (Suc k) t \<and> (\<forall>j<Suc k. \<not> reach g from j t)}"
      then have r: "reach g from (Suc k) t" and n: "\<forall>j\<le>k. \<not> reach g from j t"
        by (auto simp: less_Suc_eq_le)
      from reach_succ [OF r n] n seen nxt show "t \<in> fst ` set nxt" by auto
    qed
  qed
  have c: "set seen' = {t. \<exists>j\<le>Suc k. reach g from j t}"
  proof (rule set_eqI)
    fix t
    show "t \<in> set seen' \<longleftrightarrow> t \<in> {t. \<exists>j\<le>Suc k. reach g from j t}"
    proof
      assume "t \<in> set seen'"
      with seen' have "t \<in> set seen \<or> t \<in> successors g fr" by auto
      then show "t \<in> {t. \<exists>j\<le>Suc k. reach g from j t}"
      proof
        assume "t \<in> set seen"
        with seen obtain j where "j \<le> k" "reach g from j t" by auto
        then have "j \<le> Suc k \<and> reach g from j t" by simp
        then show ?thesis by blast
      next
        assume "t \<in> successors g fr"
        from succ_reach [OF this] show ?thesis by blast
      qed
    next
      assume "t \<in> {t. \<exists>j\<le>Suc k. reach g from j t}"
      then obtain j where j: "j \<le> Suc k" "reach g from j t" by auto
      show "t \<in> set seen'"
      proof (cases "\<exists>i\<le>k. reach g from i t")
        case True
        with seen seen' show ?thesis by auto
      next
        case False
        with j have "j = Suc k" by (metis le_Suc_eq)
        with j False reach_succ [of t] seen' show ?thesis by auto
      qed
    qed
  qed
  from a b c show ?thesis by (simp add: level_inv_def)
qed

lemma find_target_None:
  "find (\<lambda>(s, p). s = to) fr = None \<longleftrightarrow> to \<notin> fst ` set fr"
  by (induction fr) auto

lemma find_target_Some:
  "find (\<lambda>(s, p). s = to) fr = Some (s, p) \<Longrightarrow> s = to \<and> (s, p) \<in> set fr"
  by (induction fr) (auto split: if_splits)

lemma level_empty_closed:
  assumes "\<forall>t. reach g from k t \<longrightarrow> (\<exists>i<k. reach g from i t)"
  shows "reach g from (k + d) t \<Longrightarrow> \<exists>i<k. reach g from i t"
proof (induction d arbitrary: t)
  case 0
  with assms show ?case by simp
next
  case (Suc d)
  then obtain s n where s: "reach g from (k + d) s" "(n, t) \<in> set (edges g s)"
    by (auto simp: reach_Suc)
  from Suc.IH [OF s(1)] obtain i where i: "i < k" "reach g from i s" by blast
  with s have r: "reach g from (Suc i) t" by (auto simp: reach_Suc)
  show ?case
  proof (cases "Suc i < k")
    case True
    with r show ?thesis by blast
  next
    case False
    with i have "Suc i = k" by simp
    with r assms show ?thesis by blast
  qed
qed

lemma bfs_found:
  assumes "level_inv g from k fr seen" and "\<forall>j<k. \<not> reach g from j to"
    and "bfs g to fr seen n = Some p"
  shows "is_path g from p to \<and> length p \<le> k + n \<and> (\<forall>j<length p. \<not> reach g from j to)"
  using assms
proof (induction n arbitrary: k fr seen)
  case 0
  then obtain s where f: "find (\<lambda>(s, p). s = to) fr = Some (s, p)"
    by auto
  from find_target_Some [OF f] "0.prems"(1) have "is_path g from p to \<and> length p = k"
    by (auto simp: level_inv_def)
  with "0.prems"(2) show ?case by simp
next
  case (Suc n)
  show ?case
  proof (cases "find (\<lambda>(s, p). s = to) fr")
    case (Some e)
    obtain s q where e: "e = (s, q)" by (cases e)
    with Some Suc.prems(3) have "q = p" by simp
    with Some e find_target_Some [of to fr s q] Suc.prems(1)
    have "is_path g from p to \<and> length p = k"
      by (auto simp: level_inv_def)
    with Suc.prems(2) show ?thesis by simp
  next
    case None
    with Suc.prems(3) have ne: "fr \<noteq> []" by (auto split: if_splits)
    obtain nxt seen' where ex: "expand g fr [] seen = (nxt, seen')"
      by (cases "expand g fr [] seen")
    with None ne Suc.prems(3) have b: "bfs g to nxt seen' n = Some p" by simp
    from None have "to \<notin> fst ` set fr" by (simp add: find_target_None)
    with Suc.prems(1) Suc.prems(2) have "\<not> reach g from k to"
      by (auto simp: level_inv_def)
    with Suc.prems(2) have n: "\<forall>j<Suc k. \<not> reach g from j to"
      by (auto simp: less_Suc_eq)
    from Suc.IH [OF level_inv_step [OF Suc.prems(1) ex] n b] show ?thesis by simp
  qed
qed

lemma bfs_not_found:
  assumes "level_inv g from k fr seen" and "\<forall>j<k. \<not> reach g from j to"
    and "bfs g to fr seen n = None"
  shows "\<forall>j\<le>k + n. \<not> reach g from j to"
  using assms
proof (induction n arbitrary: k fr seen)
  case 0
  then have "to \<notin> fst ` set fr" by (simp add: find_target_None)
  with "0.prems"(1) "0.prems"(2) have "\<not> reach g from k to"
    by (auto simp: level_inv_def)
  with "0.prems"(2) show ?case by (auto simp: le_less)
next
  case (Suc n)
  from Suc.prems(3) have f: "find (\<lambda>(s, p). s = to) fr = None"
    by (auto split: option.splits)
  then have "to \<notin> fst ` set fr" by (simp add: find_target_None)
  with Suc.prems(1) Suc.prems(2) have nk: "\<not> reach g from k to"
    by (auto simp: level_inv_def)
  with Suc.prems(2) have n: "\<forall>j<Suc k. \<not> reach g from j to"
    by (auto simp: less_Suc_eq)
  show ?case
  proof (cases "fr = []")
    case True
    with Suc.prems(1) have c: "\<forall>t. reach g from k t \<longrightarrow> (\<exists>i<k. reach g from i t)"
      by (auto simp: level_inv_def)
    show ?thesis
    proof (intro allI impI notI)
      fix j
      assume "j \<le> k + Suc n" and r: "reach g from j to"
      show False
      proof (cases "j < k")
        case True
        with r Suc.prems(2) show False by blast
      next
        case False
        then obtain d where "j = k + d" by (metis le_Suc_ex not_less)
        with r level_empty_closed [OF c, of d to] Suc.prems(2) show False by blast
      qed
    qed
  next
    case False
    obtain nxt seen' where ex: "expand g fr [] seen = (nxt, seen')"
      by (cases "expand g fr [] seen")
    with f False Suc.prems(3) have b: "bfs g to nxt seen' n = None" by simp
    from Suc.IH [OF level_inv_step [OF Suc.prems(1) ex] n b] show ?thesis by simp
  qed
qed

lemma Path_found:
  assumes "Path g from to n = Inr p"
  shows "is_path g from p to \<and> length p \<le> n \<and> (\<forall>q. is_path g from q to \<longrightarrow> length p \<le> length q)"
proof -
  from assms have b: "bfs g to [(from, [])] [from] n = Some p"
    by (auto simp: Path_def split: option.splits)
  from bfs_found [OF level_inv_start _ b]
  have r: "is_path g from p to" "length p \<le> n" "\<forall>j<length p. \<not> reach g from j to"
    by simp_all
  have "length p \<le> length q" if "is_path g from q to" for q
  proof (rule ccontr)
    assume "\<not> length p \<le> length q"
    with r(3) have "\<not> reach g from (length q) to" by simp
    with that show False by (auto simp: reach_def)
  qed
  with r show ?thesis by blast
qed

lemma Path_not_found:
  assumes "Path g from to n = Inl e"
  shows "e = NoPathFound n \<and> (\<forall>q. is_path g from q to \<longrightarrow> n < length q)"
proof -
  from assms have b: "bfs g to [(from, [])] [from] n = None" and e: "e = NoPathFound n"
    by (auto simp: Path_def split: option.splits)
  from bfs_not_found [OF level_inv_start _ b] have r: "\<forall>j\<le>n. \<not> reach g from j to"
    by simp
  have "n < length q" if "is_path g from q to" for q
  proof (rule ccontr)
    assume "\<not> n < length q"
    with r have "\<not> reach g from (length q) to" by simp
    with that show False by (auto simp: reach_def)
  qed
  with e show ?thesis by blast
qed

lemma Path_same: "Path g s s n = Inr []"
  by (cases n) (simp_all add: Path_def)

subsection \<open>The order of the routes\<close>

lemma lex_le_refl [simp]: "lex_le r r"
  by (induction r) auto

lemma lex_le_antisym: "lex_le a b \<Longrightarrow> lex_le b a \<Longrightarrow> length a = length b \<Longrightarrow> a = b"
  by (induction a b rule: lex_le.induct) auto

lemma lex_le_trans: "lex_le a b \<Longrightarrow> lex_le b c \<Longrightarrow> lex_le a c"
proof (induction a b arbitrary: c rule: lex_le.induct)
  case (1 r')
  then show ?case by simp
next
  case (2 i r)
  then show ?case by simp
next
  case (3 i r j r')
  then show ?case by (cases c) auto
qed

lemma lex_le_snoc_same: "i \<le> j \<Longrightarrow> lex_le (a @ [i]) (a @ [j])"
  by (induction a) auto

lemma lex_le_snoc_less:
  "length a = length b \<Longrightarrow> lex_le a b \<Longrightarrow> a \<noteq> b \<Longrightarrow> lex_le (a @ [i]) (b @ [j])"
  by (induction a b rule: lex_le.induct) auto

lemma lex_le_snoc:
  "length a = length b \<Longrightarrow> lex_le a b \<Longrightarrow> lex_le (a @ [j]) (b @ [j])"
  by (cases "a = b") (simp_all add: lex_le_snoc_same lex_le_snoc_less)

lemma no_later_antisym: "no_later a b \<Longrightarrow> no_later b a \<Longrightarrow> a = b"
  by (auto simp: no_later_def lex_le_antisym)

subsection \<open>Routes and paths\<close>

lemma follow_snoc:
  "follow g s (r @ [i]) =
     (case follow g s r of
        None \<Rightarrow> None
      | Some (p, u) \<Rightarrow>
          (if i < length (edges g u)
           then Some (p @ [fst (edges g u ! i)], snd (edges g u ! i)) else None))"
proof (induction r arbitrary: s)
  case Nil
  then show ?case by (simp split: prod.splits)
next
  case (Cons j r)
  show ?case
  proof (cases "j < length (edges g s)")
    case False
    then show ?thesis by simp
  next
    case True
    obtain t s' where e: "edges g s ! j = (t, s')" by (cases "edges g s ! j")
    show ?thesis
      using True e Cons.IH [of s']
      by (cases "follow g s' r") (auto split: prod.splits)
  qed
qed

lemma follow_path:
  "follow g s r = Some (p, t) \<Longrightarrow> is_path g s p t \<and> length p = length r"
proof (induction r arbitrary: s p)
  case Nil
  then show ?case by simp
next
  case (Cons j r)
  from Cons.prems have j: "j < length (edges g s)" by (simp split: if_splits)
  obtain n s' where e: "edges g s ! j = (n, s')" by (cases "edges g s ! j")
  with Cons.prems j obtain p' where p': "follow g s' r = Some (p', t)" "p = n # p'"
    by auto
  from Cons.IH [OF p'(1)] have "is_path g s' p' t" "length p' = length r" by simp_all
  moreover from j e have "(n, s') \<in> set (edges g s)" by (metis nth_mem)
  ultimately show ?case using p'(2) by auto
qed

lemma follow_of_path:
  "is_path g s p t \<Longrightarrow> \<exists>r. follow g s r = Some (p, t)"
proof (induction p arbitrary: s)
  case Nil
  then have "follow g s [] = Some ([], t)" by simp
  then show ?case by blast
next
  case (Cons n p)
  then obtain s' where e: "(n, s') \<in> set (edges g s)" and q: "is_path g s' p t"
    by auto
  from Cons.IH [OF q] obtain r where r: "follow g s' r = Some (p, t)" by blast
  from e obtain i where i: "i < length (edges g s)" "edges g s ! i = (n, s')"
    by (auto simp: in_set_conv_nth)
  with r have "follow g s (i # r) = Some (n # p, t)" by simp
  then show ?case by blast
qed

subsection \<open>A level of the search keeps the first step to each new status\<close>

lemma firsts_append:
  "firsts seen (a @ b) = firsts seen a @ firsts (rev (map fst (firsts seen a)) @ seen) b"
proof (induction a arbitrary: seen)
  case Nil
  then show ?case by simp
next
  case (Cons e a)
  obtain s x where e: "e = (s, x)" by (cases e)
  show ?case
    using Cons.IH [of seen] Cons.IH [of "s # seen"] e by simp
qed

lemma visit_edges_firsts:
  "visit_edges p es nxt seen =
     (nxt @ firsts seen (map (\<lambda>(t, s'). (s', p @ [t])) es),
      rev (map fst (firsts seen (map (\<lambda>(t, s'). (s', p @ [t])) es))) @ seen)"
proof (induction es arbitrary: nxt seen)
  case Nil
  then show ?case by simp
next
  case (Cons e es)
  obtain t s' where e: "e = (t, s')" by (cases e)
  show ?case
    using Cons.IH [of nxt seen] Cons.IH [of "nxt @ [(s', p @ [t])]" "s' # seen"] e by simp
qed

lemma steps_from_Cons:
  "steps_from g ((s, p) # fr) = map (\<lambda>(t, s'). (s', p @ [t])) (edges g s) @ steps_from g fr"
  by (simp add: steps_from_def)

lemma expand_firsts:
  "expand g fr nxt seen =
     (nxt @ firsts seen (steps_from g fr),
      rev (map fst (firsts seen (steps_from g fr))) @ seen)"
proof (induction fr arbitrary: nxt seen)
  case Nil
  then show ?case by (simp add: steps_from_def)
next
  case (Cons e fr)
  obtain s p where e: "e = (s, p)" by (cases e)
  show ?case
    unfolding e expand.simps visit_edges_firsts prod.case Cons.IH steps_from_Cons firsts_append
    by simp
qed

lemma firsts_map:
  "firsts seen (map (apsnd f) cs) = map (apsnd f) (firsts seen cs)"
proof (induction cs arbitrary: seen)
  case Nil
  then show ?case by simp
next
  case (Cons e cs)
  obtain s x where e: "e = (s, x)" by (cases e)
  show ?case
    using Cons.IH [of seen] Cons.IH [of "s # seen"] e by simp
qed

lemma firsts_subset: "set (firsts seen cs) \<subseteq> set cs"
proof (induction cs arbitrary: seen)
  case Nil
  then show ?case by simp
next
  case (Cons e cs)
  obtain s x where e: "e = (s, x)" by (cases e)
  show ?case
    using Cons.IH [of seen] Cons.IH [of "s # seen"] e by auto
qed

lemma firsts_unseen: "(s, x) \<in> set (firsts seen cs) \<Longrightarrow> s \<notin> set seen"
proof (induction cs arbitrary: seen)
  case Nil
  then show ?case by simp
next
  case (Cons e cs)
  obtain s' x' where e: "e = (s', x')" by (cases e)
  show ?case
  proof (cases "s' \<in> set seen")
    case True
    with Cons.prems e have "(s, x) \<in> set (firsts seen cs)" by simp
    from Cons.IH [OF this] show ?thesis .
  next
    case False
    with Cons.prems e have "(s, x) = (s', x') \<or> (s, x) \<in> set (firsts (s' # seen) cs)" by simp
    then show ?thesis
    proof
      assume "(s, x) = (s', x')"
      with False show ?thesis by simp
    next
      assume "(s, x) \<in> set (firsts (s' # seen) cs)"
      from Cons.IH [OF this] show ?thesis by simp
    qed
  qed
qed

lemma firsts_sorted:
  "sorted_wrt P cs \<Longrightarrow> sorted_wrt P (firsts seen cs)"
proof (induction cs arbitrary: seen)
  case Nil
  then show ?case by simp
next
  case (Cons e cs)
  obtain s x where e: "e = (s, x)" by (cases e)
  from Cons.prems have a: "\<forall>y \<in> set cs. P e y" and b: "sorted_wrt P cs" by simp_all
  from a firsts_subset [of "s # seen" cs] have "\<forall>y \<in> set (firsts (s # seen) cs). P e y"
    by blast
  with Cons.IH [OF b, of seen] Cons.IH [OF b, of "s # seen"] e show ?case by simp
qed

lemma firsts_earliest:
  "sorted_wrt (\<lambda>a b. R (snd a) (snd b)) cs \<Longrightarrow> (s, x) \<in> set (firsts seen cs)
     \<Longrightarrow> (s, y) \<in> set cs \<Longrightarrow> x = y \<or> R x y"
proof (induction cs arbitrary: seen)
  case Nil
  then show ?case by simp
next
  case (Cons e cs)
  obtain s' x' where e: "e = (s', x')" by (cases e)
  from Cons.prems(1) have a: "\<forall>c \<in> set cs. R x' (snd c)"
    and b: "sorted_wrt (\<lambda>a b. R (snd a) (snd b)) cs" using e by simp_all
  show ?case
  proof (cases "s' \<in> set seen")
    case True
    with Cons.prems(2) e have m: "(s, x) \<in> set (firsts seen cs)" by simp
    from firsts_unseen [OF m] True have "s \<noteq> s'" by blast
    with Cons.prems(3) e have "(s, y) \<in> set cs" by simp
    from Cons.IH [OF b m this] show ?thesis .
  next
    case False
    with Cons.prems(2) e have "(s, x) = (s', x') \<or> (s, x) \<in> set (firsts (s' # seen) cs)"
      by simp
    then show ?thesis
    proof
      assume eq: "(s, x) = (s', x')"
      from Cons.prems(3) e have "(s, y) = (s', x') \<or> (s, y) \<in> set cs" by simp
      then show ?thesis
      proof
        assume "(s, y) = (s', x')"
        with eq show ?thesis by simp
      next
        assume "(s, y) \<in> set cs"
        with a eq show ?thesis by force
      qed
    next
      assume m: "(s, x) \<in> set (firsts (s' # seen) cs)"
      from firsts_unseen [OF m] have "s \<noteq> s'" by simp
      with Cons.prems(3) e have "(s, y) \<in> set cs" by simp
      from Cons.IH [OF b m this] show ?thesis .
    qed
  qed
qed

lemma map_by_position: "map f es = map (\<lambda>i. f (es ! i)) [0..<length es]"
proof -
  have "map f (map (\<lambda>i. es ! i) [0..<length es]) = map f es"
    by (simp only: map_nth)
  then show ?thesis by (simp add: comp_def)
qed

lemma route_steps_Cons:
  "route_steps g ((s, p, r) # frt) =
     map (\<lambda>i. (snd (edges g s ! i), p @ [fst (edges g s ! i)], r @ [i]))
       [0..<length (edges g s)] @ route_steps g frt"
  by (simp add: route_steps_def)

lemma steps_named:
  "steps_from g (map (apsnd fst) frt) = map (apsnd fst) (route_steps g frt)"
proof (induction frt)
  case Nil
  then show ?case by (simp add: steps_from_def route_steps_def)
next
  case (Cons e frt)
  obtain s p r where e: "e = (s, p, r)" by (cases e)
  have "map (\<lambda>(t, s'). (s', p @ [t])) (edges g s) =
      map (\<lambda>i. (\<lambda>(t, s'). (s', p @ [t])) (edges g s ! i)) [0..<length (edges g s)]"
    by (rule map_by_position)
  also have "\<dots> = map (apsnd fst)
      (map (\<lambda>i. (snd (edges g s ! i), p @ [fst (edges g s ! i)], r @ [i]))
        [0..<length (edges g s)])"
    by (simp add: case_prod_beta)
  finally show ?case
    using Cons.IH e by (simp add: steps_from_Cons route_steps_Cons)
qed

lemma route_steps_mem:
  "(s', p', r') \<in> set (route_steps g frt) \<longleftrightarrow>
     (\<exists>s p r i. (s, p, r) \<in> set frt \<and> i < length (edges g s) \<and>
        s' = snd (edges g s ! i) \<and> p' = p @ [fst (edges g s ! i)] \<and> r' = r @ [i])"
  unfolding route_steps_def by fastforce

lemma snoc_differs: "length a = length b \<Longrightarrow> a @ [i] = b @ [j] \<longleftrightarrow> a = b \<and> i = j"
  by simp

lemma route_steps_sorted:
  assumes "sorted_wrt (\<lambda>a b. lex_le (snd (snd a)) (snd (snd b)) \<and> snd (snd a) \<noteq> snd (snd b)) frt"
    and "\<forall>(s, p, r) \<in> set frt. length r = k"
  shows "sorted_wrt (\<lambda>a b. lex_le (snd (snd a)) (snd (snd b)) \<and> snd (snd a) \<noteq> snd (snd b))
           (route_steps g frt)"
  using assms
proof (induction frt)
  case Nil
  then show ?case by (simp add: route_steps_def)
next
  case (Cons e frt)
  obtain s p r where e: "e = (s, p, r)" by (cases e)
  let ?LT = "\<lambda>a b :: string \<times> string list \<times> nat list.
      lex_le (snd (snd a)) (snd (snd b)) \<and> snd (snd a) \<noteq> snd (snd b)"
  let ?f = "\<lambda>i. (snd (edges g s ! i), p @ [fst (edges g s ! i)], r @ [i])"
  from Cons.prems have tl: "sorted_wrt ?LT frt" "\<forall>(s, p, r) \<in> set frt. length r = k"
    and hd: "\<forall>y \<in> set frt. ?LT e y" and len: "length r = k"
    using e by simp_all
  have a: "sorted_wrt ?LT (map ?f [0..<length (edges g s)])"
  proof -
    have "sorted_wrt (\<lambda>i j. ?LT (?f i) (?f j)) [0..<length (edges g s)]"
      by (rule sorted_wrt_mono_rel [of _ "(<)"]) (simp_all add: lex_le_snoc_same)
    then show ?thesis by (simp only: sorted_wrt_map)
  qed
  have b: "sorted_wrt ?LT (route_steps g frt)"
    by (rule Cons.IH [OF tl])
  have c: "?LT x y"
    if x: "x \<in> set (map ?f [0..<length (edges g s)])" and y: "y \<in> set (route_steps g frt)"
    for x y
  proof -
    from x obtain i where i: "snd (snd x) = r @ [i]" by auto
    obtain s' p' r' where y': "y = (s', p', r')" by (cases y)
    with y obtain u pu ru j where u: "(u, pu, ru) \<in> set frt" "r' = ru @ [j]"
      by (auto simp: route_steps_mem)
    from hd u(1) e have lt: "lex_le r ru" "r \<noteq> ru" by auto
    from tl(2) u(1) len have l: "length r = length ru" by auto
    from lex_le_snoc_less [OF l lt] lt(2) l i y' u(2) show ?thesis by simp
  qed
  from a b c show ?case
    unfolding e route_steps_Cons sorted_wrt_append by blast
qed

subsection \<open>The frontier holds the first route to each of its statuses\<close>

lemma order_inv_start: "order_inv g from 0 [(from, [])]"
  unfolding order_inv_def
  by (rule exI [of _ "[(from, [], [])]"]) simp

lemma order_inv_step:
  assumes lev: "level_inv g from k fr seen"
    and ord: "order_inv g from k fr"
    and ex: "expand g fr [] seen = (nxt, seen')"
  shows "order_inv g from (Suc k) nxt"
proof -
  let ?LT = "\<lambda>a b :: string \<times> string list \<times> nat list.
      lex_le (snd (snd a)) (snd (snd b)) \<and> snd (snd a) \<noteq> snd (snd b)"
  from ord obtain frt where fr: "fr = map (apsnd fst) frt"
    and valid: "\<And>s p r. (s, p, r) \<in> set frt \<Longrightarrow> follow g from r = Some (p, s) \<and> length r = k"
    and sorted: "sorted_wrt ?LT frt"
    and least: "\<And>s p r r' p'. (s, p, r) \<in> set frt \<Longrightarrow> length r' = k
        \<Longrightarrow> follow g from r' = Some (p', s) \<Longrightarrow> lex_le r r'"
    unfolding order_inv_def by blast
  from lev have level: "fst ` set fr = {t. reach g from k t \<and> (\<forall>j<k. \<not> reach g from j t)}"
    and seen: "set seen = {t. \<exists>j\<le>k. reach g from j t}"
    by (auto simp: level_inv_def)
  define frt' where "frt' = firsts seen (route_steps g frt)"
  from ex have "nxt = firsts seen (steps_from g fr)"
    by (simp add: expand_firsts)
  then have n: "nxt = map (apsnd fst) frt'"
    by (simp only: fr steps_named firsts_map frt'_def)
  have len: "\<forall>(s, p, r) \<in> set frt. length r = k"
    using valid by blast
  have steps_sorted: "sorted_wrt ?LT (route_steps g frt)"
    by (rule route_steps_sorted [OF sorted len])
  have step_valid: "follow g from r' = Some (p', s') \<and> length r' = Suc k"
    if "(s', p', r') \<in> set (route_steps g frt)" for s' p' r'
  proof -
    from that obtain s p r i where m: "(s, p, r) \<in> set frt" "i < length (edges g s)"
        "s' = snd (edges g s ! i)" "p' = p @ [fst (edges g s ! i)]" "r' = r @ [i]"
      by (auto simp: route_steps_mem)
    from valid [OF m(1)] m(2-) show ?thesis by (simp add: follow_snoc)
  qed
  have a: "\<forall>(s, p, r) \<in> set frt'. follow g from r = Some (p, s) \<and> length r = Suc k"
    using step_valid firsts_subset [of seen "route_steps g frt"] unfolding frt'_def by blast
  have b: "sorted_wrt ?LT frt'"
    unfolding frt'_def by (rule firsts_sorted [OF steps_sorted])
  have c: "lex_le r r'"
    if m: "(s, p, r) \<in> set frt'" and l: "length r' = Suc k"
      and f: "follow g from r' = Some (p', s)" for s p r r' p'
  proof -
    from l obtain q j where q: "r' = q @ [j]"
      by (cases r' rule: rev_cases) auto
    with f obtain pq u where u: "follow g from q = Some (pq, u)" "j < length (edges g u)"
        "s = snd (edges g u ! j)"
      by (auto simp: follow_snoc split: option.splits if_splits)
    from l q have lq: "length q = k" by simp
    from follow_path [OF u(1)] lq have ru: "reach g from k u"
      by (auto simp: reach_def)
    from u(2) u(3) have e: "(fst (edges g u ! j), s) \<in> set (edges g u)"
      by (metis nth_mem prod.collapse)
    from m have "s \<notin> set seen"
      unfolding frt'_def by (rule firsts_unseen)
    with seen have ns: "\<And>i. i \<le> k \<Longrightarrow> \<not> reach g from i s" by blast
    have "\<not> reach g from i u" if "i < k" for i
    proof
      assume "reach g from i u"
      with e have "reach g from (Suc i) s" unfolding reach_Suc by blast
      moreover from that have "Suc i \<le> k" by simp
      ultimately show False using ns by blast
    qed
    with ru level have "u \<in> fst ` set fr" by blast
    then obtain pu ru' where mu: "(u, pu, ru') \<in> set frt"
      unfolding fr by auto
    from least [OF mu lq u(1)] have le: "lex_le ru' q" .
    from valid [OF mu] lq have ll: "length ru' = length q" by simp
    from mu u(2) u(3)
    have cand: "(s, pu @ [fst (edges g u ! j)], ru' @ [j]) \<in> set (route_steps g frt)"
      by (auto simp: route_steps_mem)
    from steps_sorted
    have "sorted_wrt (\<lambda>a b. (\<lambda>x y. lex_le (snd x) (snd y) \<and> snd x \<noteq> snd y) (snd a) (snd b))
        (route_steps g frt)" by simp
    from firsts_earliest [OF this m [unfolded frt'_def] cand]
    have "lex_le r (ru' @ [j])" by auto
    moreover from lex_le_snoc [OF ll le] have "lex_le (ru' @ [j]) (q @ [j])" .
    ultimately show ?thesis unfolding q by (rule lex_le_trans)
  qed
  show ?thesis
    unfolding order_inv_def
  proof (intro exI [of _ frt'] conjI)
    show "nxt = map (apsnd fst) frt'" by (rule n)
    show "\<forall>(s, p, r) \<in> set frt'. follow g from r = Some (p, s) \<and> length r = Suc k" by (rule a)
    show "sorted_wrt ?LT frt'" by (rule b)
    show "\<forall>(s, p, r) \<in> set frt'. \<forall>r' p'.
        length r' = Suc k \<and> follow g from r' = Some (p', s) \<longrightarrow> lex_le r r'"
      using c by blast
  qed
qed

lemma bfs_first:
  assumes "level_inv g from k fr seen" and "order_inv g from k fr"
    and "bfs g to fr seen n = Some p"
  shows "\<exists>r. follow g from r = Some (p, to) \<and>
     (\<forall>r' p'. length r' = length r \<and> follow g from r' = Some (p', to) \<longrightarrow> lex_le r r')"
  using assms
proof (induction n arbitrary: k fr seen)
  case 0
  then obtain s where f: "find (\<lambda>(s, p). s = to) fr = Some (s, p)"
    by auto
  from find_target_Some [OF f] have m: "(to, p) \<in> set fr" by blast
  from "0.prems"(2) m show ?case
    unfolding order_inv_def by fastforce
next
  case (Suc n)
  show ?case
  proof (cases "find (\<lambda>(s, p). s = to) fr")
    case (Some e)
    obtain s q where e: "e = (s, q)" by (cases e)
    with Some Suc.prems(3) have "q = p" by simp
    with Some e find_target_Some [of to fr s q] have m: "(to, p) \<in> set fr" by blast
    from Suc.prems(2) m show ?thesis
      unfolding order_inv_def by fastforce
  next
    case None
    with Suc.prems(3) have ne: "fr \<noteq> []" by (auto split: if_splits)
    obtain nxt seen' where ex: "expand g fr [] seen = (nxt, seen')"
      by (cases "expand g fr [] seen")
    with None ne Suc.prems(3) have b: "bfs g to nxt seen' n = Some p" by simp
    from Suc.IH [OF level_inv_step [OF Suc.prems(1) ex]
        order_inv_step [OF Suc.prems(1) Suc.prems(2) ex] b]
    show ?thesis .
  qed
qed

subsection \<open>The first route decides the result\<close>

lemma Path_first:
  assumes "Path g from to n = Inr p"
  shows "\<exists>r. follow g from r = Some (p, to) \<and>
     (\<forall>r' p'. follow g from r' = Some (p', to) \<longrightarrow> no_later r r')"
proof -
  from assms have b: "bfs g to [(from, [])] [from] n = Some p"
    by (auto simp: Path_def split: option.splits)
  from bfs_first [OF level_inv_start order_inv_start b]
  obtain r where r: "follow g from r = Some (p, to)"
    and least: "\<And>r' p'. length r' = length r \<Longrightarrow> follow g from r' = Some (p', to)
        \<Longrightarrow> lex_le r r'"
    by blast
  from Path_found [OF assms] have short: "\<And>q. is_path g from q to \<Longrightarrow> length p \<le> length q"
    by blast
  from follow_path [OF r] have lp: "length p = length r" by simp
  have "no_later r r'" if f: "follow g from r' = Some (p', to)" for r' p'
  proof (cases "length r = length r'")
    case True
    with least [OF _ f] show ?thesis by (simp add: no_later_def)
  next
    case False
    from follow_path [OF f] short [of p'] lp have "length r \<le> length r'" by simp
    with False show ?thesis by (simp add: no_later_def)
  qed
  with r show ?thesis by blast
qed

lemma Path_determined:
  assumes r: "follow g from r = Some (p, to)"
    and first: "\<And>r' p'. follow g from r' = Some (p', to) \<Longrightarrow> no_later r r'"
  shows "Path g from to n = (if length r \<le> n then Inr p else Inl (NoPathFound n))"
proof (cases "Path g from to n")
  case (Inl e)
  from Path_not_found [OF Inl] follow_path [OF r] have "e = NoPathFound n" "n < length r"
    by auto
  with Inl show ?thesis by simp
next
  case (Inr p0)
  from Path_first [OF Inr] obtain r0 where r0: "follow g from r0 = Some (p0, to)"
    and first0: "\<And>r' p'. follow g from r' = Some (p', to) \<Longrightarrow> no_later r0 r'"
    by blast
  from first [OF r0] first0 [OF r] have "r = r0" by (rule no_later_antisym)
  with r r0 have "p0 = p" by simp
  moreover from Path_found [OF Inr] follow_path [OF r0] \<open>r = r0\<close> have "length r \<le> n" by simp
  ultimately show ?thesis using Inr by simp
qed

subsection \<open>The workflow with two shortest paths\<close>

lemma diamond_edges:
  "edges diamond_workflow ''Open'' = [(''Left'', ''Review''), (''Right'', ''Test'')]"
  "edges diamond_workflow ''Review'' = [(''Approve'', ''Done'')]"
  "edges diamond_workflow ''Test'' = [(''Pass'', ''Done'')]"
  by (simp_all add: diamond_workflow_def edges_def)

lemma diamond_first:
  assumes "follow diamond_workflow ''Open'' r' = Some (p', ''Done'')"
  shows "no_later [0, 0] r'"
proof (cases r')
  case Nil
  with assms show ?thesis by simp
next
  case (Cons i t)
  show ?thesis
  proof (cases t)
    case Nil
    from assms Cons have i: "i < 2" by (simp add: diamond_edges split: if_splits)
    then have "i = 0 \<or> i = 1" by arith
    then show ?thesis
    proof
      assume "i = 0"
      with assms Cons Nil show ?thesis by (simp add: diamond_edges)
    next
      assume "i = 1"
      with assms Cons Nil show ?thesis by (simp add: diamond_edges)
    qed
  next
    case (Cons j u)
    with \<open>r' = i # t\<close> show ?thesis
      by (cases u) (auto simp: no_later_def)
  qed
qed

text \<open>
  Claim C1. \<^verbatim>\<open>Path\<close> returns the transition names of the first path that a breadth-first
  search finds when it takes the transitions of every status in the order the tracker
  returned them. A request from a status to itself returns the empty sequence, whatever
  the bound. The paths are what the routes spell. A sequence that \<^verbatim>\<open>Path\<close> returns is
  spelt by a route to the target of at most \<^verbatim>\<open>maxSteps\<close> positions which the search
  comes upon no later than upon any other route to the target; and whenever a route to
  the target is the first in that order, \<^verbatim>\<open>Path\<close> returns the names along it if the route
  has at most \<^verbatim>\<open>maxSteps\<close> positions and fails with \<^verbatim>\<open>NoPathFound\<close> and the bound if it
  has more, so the order of the transitions alone decides between paths of the same
  length. What \<^verbatim>\<open>Path\<close> returns is a path no longer than \<^verbatim>\<open>maxSteps\<close>, and no path between
  the two statuses is shorter. When \<^verbatim>\<open>Path\<close> fails, the error is \<^verbatim>\<open>NoPathFound\<close> with the
  bound, and every path between the two, if there is any, is longer than the bound; so
  whenever a path within the bound exists, \<^verbatim>\<open>Path\<close> returns one. On the graph
  \<^verbatim>\<open>Open --Start--> InProgress --Resolve--> Closed\<close> the path from \<^verbatim>\<open>Open\<close> to \<^verbatim>\<open>Closed\<close> with
  bound 500 is \<^verbatim>\<open>Start\<close>, \<^verbatim>\<open>Resolve\<close>, and with bound 0 there is none.
\<close>

theorem Path_breadth_first:
  "(from = to \<longrightarrow> Path g from to n = Inr []) \<and>
   (is_path g from q to \<longleftrightarrow> (\<exists>r. follow g from r = Some (q, to))) \<and>
   (Path g from to n = Inr p \<longrightarrow>
      (\<exists>r. follow g from r = Some (p, to) \<and> length r \<le> n \<and>
           (\<forall>r' p'. follow g from r' = Some (p', to) \<longrightarrow> no_later r r'))) \<and>
   (follow g from r = Some (p, to) \<and>
    (\<forall>r' p'. follow g from r' = Some (p', to) \<longrightarrow> no_later r r') \<longrightarrow>
      Path g from to n = (if length r \<le> n then Inr p else Inl (NoPathFound n))) \<and>
   (Path g from to n = Inr p \<longrightarrow>
      is_path g from p to \<and> length p \<le> n \<and>
      (\<forall>q. is_path g from q to \<longrightarrow> length p \<le> length q)) \<and>
   (Path g from to n = Inl e \<longrightarrow>
      e = NoPathFound n \<and> (\<forall>q. is_path g from q to \<longrightarrow> n < length q)) \<and>
   (is_path g from q to \<and> length q \<le> n \<longrightarrow> (\<exists>r. Path g from to n = Inr r)) \<and>
   Path example_workflow ''Open'' ''Closed'' 500 = Inr [''Start'', ''Resolve''] \<and>
   Path example_workflow ''Open'' ''Closed'' 0 = Inl (NoPathFound 0)"
proof -
  have c1: "from = to \<longrightarrow> Path g from to n = Inr []"
    by (simp add: Path_same)
  have same: "is_path g from q to \<longleftrightarrow> (\<exists>r. follow g from r = Some (q, to))"
    using follow_path [of g "from" _ q to] follow_of_path [of g "from" q to] by blast
  have first: "Path g from to n = Inr p \<longrightarrow>
      (\<exists>r. follow g from r = Some (p, to) \<and> length r \<le> n \<and>
           (\<forall>r' p'. follow g from r' = Some (p', to) \<longrightarrow> no_later r r'))"
  proof
    assume a: "Path g from to n = Inr p"
    from Path_first [OF a] obtain r where r: "follow g from r = Some (p, to)"
        "\<forall>r' p'. follow g from r' = Some (p', to) \<longrightarrow> no_later r r'"
      by blast
    from Path_found [OF a] follow_path [OF r(1)] have "length r \<le> n" by simp
    with r show "\<exists>r. follow g from r = Some (p, to) \<and> length r \<le> n \<and>
           (\<forall>r' p'. follow g from r' = Some (p', to) \<longrightarrow> no_later r r')"
      by blast
  qed
  have determined: "follow g from r = Some (p, to) \<and>
      (\<forall>r' p'. follow g from r' = Some (p', to) \<longrightarrow> no_later r r') \<longrightarrow>
      Path g from to n = (if length r \<le> n then Inr p else Inl (NoPathFound n))"
    using Path_determined [of g "from" r p to n] by blast
  have c2: "Path g from to n = Inr p \<longrightarrow>
      is_path g from p to \<and> length p \<le> n \<and>
      (\<forall>q. is_path g from q to \<longrightarrow> length p \<le> length q)"
    using Path_found [of g "from" to n p] by blast
  have c3: "Path g from to n = Inl e \<longrightarrow>
      e = NoPathFound n \<and> (\<forall>q. is_path g from q to \<longrightarrow> n < length q)"
    using Path_not_found [of g "from" to n e] by blast
  have c4: "is_path g from q to \<and> length q \<le> n \<longrightarrow> (\<exists>r. Path g from to n = Inr r)"
  proof
    assume a: "is_path g from q to \<and> length q \<le> n"
    show "\<exists>r. Path g from to n = Inr r"
    proof (cases "Path g from to n")
      case (Inl e')
      from Path_not_found [OF Inl] a have "n < length q" by blast
      with a show ?thesis by simp
    next
      case (Inr r)
      then show ?thesis by blast
    qed
  qed
  have c5: "Path example_workflow ''Open'' ''Closed'' 500 = Inr [''Start'', ''Resolve'']"
    by (simp add: Path_def example_workflow_def edges_def numeral_eq_Suc)
  have c6: "Path example_workflow ''Open'' ''Closed'' 0 = Inl (NoPathFound 0)"
    by (simp add: Path_def example_workflow_def edges_def)
  from c1 same first determined c2 c3 c4 c5 c6 show ?thesis by blast
qed

theorem Path_breadth_first_witness:
  "Path example_workflow ''Open'' ''Open'' 0 = Inr [] \<and>
   follow diamond_workflow ''Open'' [0, 0] = Some ([''Left'', ''Approve''], ''Done'') \<and>
   follow diamond_workflow ''Open'' [1, 0] = Some ([''Right'', ''Pass''], ''Done'') \<and>
   no_later [0, 0] [1, 0] \<and>
   \<not> no_later [1, 0] [0, 0] \<and>
   Path diamond_workflow ''Open'' ''Done'' 500 = Inr [''Left'', ''Approve''] \<and>
   Path diamond_workflow ''Open'' ''Done'' 2 = Inr [''Left'', ''Approve''] \<and>
   Path diamond_workflow ''Open'' ''Done'' 1 = Inl (NoPathFound 1) \<and>
   (\<exists>r. follow diamond_workflow ''Open'' r = Some ([''Left'', ''Approve''], ''Done'') \<and>
        length r \<le> 500 \<and> no_later r [1, 0]) \<and>
   is_path diamond_workflow ''Open'' [''Left'', ''Approve''] ''Done'' \<and>
   is_path diamond_workflow ''Open'' [''Right'', ''Pass''] ''Done'' \<and>
   length [''Left'', ''Approve''] \<le> length [''Right'', ''Pass''] \<and>
   1 < length [''Right'', ''Pass''] \<and>
   Path example_workflow ''Closed'' ''Open'' 500 = Inl (NoPathFound 500) \<and>
   is_path example_workflow ''Open'' [''Start'', ''Resolve''] ''Closed'' \<and>
   length [''Start'', ''Resolve''] \<le> (2 :: nat) \<and>
   Path example_workflow ''Open'' ''Closed'' 2 = Inr [''Start'', ''Resolve'']"
proof -
  have d: "Path diamond_workflow ''Open'' ''Done'' 1 = Inl (NoPathFound 1)"
      "Path example_workflow ''Closed'' ''Open'' 500 = Inl (NoPathFound 500)"
    by (simp_all add: Path_def diamond_workflow_def example_workflow_def edges_def numeral_eq_Suc)
  have f: "follow diamond_workflow ''Open'' [0, 0] = Some ([''Left'', ''Approve''], ''Done'')"
      "follow diamond_workflow ''Open'' [1, 0] = Some ([''Right'', ''Pass''], ''Done'')"
    by (simp_all add: diamond_edges)
  have o: "no_later [0, 0] [1, 0]" "\<not> no_later [1, 0] [0, 0]"
    by (simp_all add: no_later_def)
  have least: "\<forall>r' p'. follow diamond_workflow ''Open'' r' = Some (p', ''Done'')
      \<longrightarrow> no_later [0, 0] r'"
    using diamond_first by blast
  have q: "is_path example_workflow ''Open'' [''Start'', ''Resolve''] ''Closed''"
    by (simp add: example_workflow_def edges_def)
  note A = Path_breadth_first [where g = example_workflow and n = 0 and p = "[]"
      and q = "[]" and e = "NoPathFound 0" and r = "[]", of "''Open''" "''Open''"]
  note B = Path_breadth_first [where g = diamond_workflow and n = 500
      and p = "[''Left'', ''Approve'']" and q = "[''Right'', ''Pass'']"
      and e = "NoPathFound 500" and r = "[0, 0]", of "''Open''" "''Done''"]
  note B2 = Path_breadth_first [where g = diamond_workflow and n = 2
      and p = "[''Left'', ''Approve'']" and q = "[''Left'', ''Approve'']"
      and e = "NoPathFound 2" and r = "[0, 0]", of "''Open''" "''Done''"]
  note C = Path_breadth_first [where g = diamond_workflow and n = 1
      and p = "[]" and q = "[''Right'', ''Pass'']"
      and e = "NoPathFound 1" and r = "[]", of "''Open''" "''Done''"]
  note D = Path_breadth_first [where g = example_workflow and n = 2
      and p = "[''Start'', ''Resolve'']" and q = "[''Start'', ''Resolve'']"
      and e = "NoPathFound 2" and r = "[]", of "''Open''" "''Closed''"]
  from A have a: "Path example_workflow ''Open'' ''Open'' 0 = Inr []" by blast
  from B f(1) least
  have b0: "Path diamond_workflow ''Open'' ''Done'' 500 =
      (if length [0 :: nat, 0] \<le> 500 then Inr [''Left'', ''Approve''] else Inl (NoPathFound 500))"
    by blast
  then have b: "Path diamond_workflow ''Open'' ''Done'' 500 = Inr [''Left'', ''Approve'']"
    by simp
  from B2 f(1) least
  have "Path diamond_workflow ''Open'' ''Done'' 2 =
      (if length [0 :: nat, 0] \<le> 2 then Inr [''Left'', ''Approve''] else Inl (NoPathFound 2))"
    by blast
  then have b': "Path diamond_workflow ''Open'' ''Done'' 2 = Inr [''Left'', ''Approve'']"
    by simp
  from B b obtain r where r: "follow diamond_workflow ''Open'' r = Some ([''Left'', ''Approve''], ''Done'')"
      "length r \<le> 500"
      "\<forall>r' p'. follow diamond_workflow ''Open'' r' = Some (p', ''Done'') \<longrightarrow> no_later r r'"
    by blast
  from r(3) f(2) have "no_later r [1, 0]" by blast
  with r have b3: "\<exists>r. follow diamond_workflow ''Open'' r = Some ([''Left'', ''Approve''], ''Done'') \<and>
        length r \<le> 500 \<and> no_later r [1, 0]"
    by blast
  from B b have b1: "is_path diamond_workflow ''Open'' [''Left'', ''Approve''] ''Done''"
    by blast
  from B f(2) have q1: "is_path diamond_workflow ''Open'' [''Right'', ''Pass''] ''Done''"
    by blast
  from B b q1 have b2: "length [''Left'', ''Approve''] \<le> length [''Right'', ''Pass'']"
    by blast
  from C d(1) q1 have c: "1 < length [''Right'', ''Pass'']" by blast
  have lq: "length [''Start'', ''Resolve''] \<le> (2 :: nat)" by simp
  from D q lq have "\<exists>r. Path example_workflow ''Open'' ''Closed'' 2 = Inr r"
    by blast
  then have e: "Path example_workflow ''Open'' ''Closed'' 2 = Inr [''Start'', ''Resolve'']"
    by (simp add: Path_def example_workflow_def edges_def numeral_eq_Suc)
  from a f o b b' d b3 b1 q1 b2 c q e show ?thesis by simp
qed

end
